theory Spec2Isabelle
  imports Complex_Main
begin

section \<open>Bresenham and Xiaolin Wu line rasterizers (Test2/main.cpp)\<close>

text \<open>
  A shallow embedding of the three pure functions of \<^verbatim>\<open>Test2/main.cpp\<close>:
  \<^verbatim>\<open>generateLines\<close> (lines 28-37), \<^verbatim>\<open>bresenhamLine\<close> (lines 41-61) and
  \<^verbatim>\<open>xiaolinWuLine\<close> (lines 64-195).

  Conventions of the embedding.

  \<^item> \<^verbatim>\<open>float\<close> and \<^verbatim>\<open>double\<close> values are modelled by \<^typ>\<open>real\<close> with exact arithmetic.
    The theorems therefore describe the values the code computes before rounding. The
    concrete coverages and positions evaluated in the refutations below come from dyadic
    rationals of small magnitude, for which the binary32 operations of the source are
    exact as well.
  \<^item> C++ \<^verbatim>\<open>int\<close> is the 32-bit two's complement integer. Its values are kept in
    \<^typ>\<open>int\<close>, and every arithmetic operation of \<^verbatim>\<open>bresenhamLine\<close> and \<^verbatim>\<open>generateLines\<close>
    on \<^verbatim>\<open>int\<close> is written with its wrap-around modulo \<open>2^32\<close> (section ``Machine
    integers''). Signed overflow is undefined in C++; the wrap-around is what the usual
    compilers produce for it.
  \<^item> In \<^verbatim>\<open>xiaolinWuLine\<close> the only arithmetic on \<^verbatim>\<open>int\<close> is the loop counter, which runs
    between the two converted endpoint columns. The conversion \<^verbatim>\<open>int(f)\<close> of a float outside
    the range of \<^verbatim>\<open>int\<close> is undefined in C++; the model of \<^verbatim>\<open>xiaolinWuLine\<close> describes the
    calls whose endpoint columns fit in \<^verbatim>\<open>int\<close> and leaves the counter unbounded.
  \<^item> A division by a zero width or height yields an infinity or a NaN in the source and
    \<open>0\<close> in HOL. The theorems that speak about the positions of samples assume a positive
    width and height; the others speak about coverages, lengths and termination only.
  \<^item> A \<^verbatim>\<open>std::vector\<close> that is only appended to is a list; \<^verbatim>\<open>push_back\<close> appends at the
    end.
  \<^item> The loops \<^verbatim>\<open>while (true)\<close> of \<^verbatim>\<open>bresenhamLine\<close> and \<^verbatim>\<open>for (...; angle < 360; ...)\<close> of
    \<^verbatim>\<open>generateLines\<close> are not bounded syntactically; they are modelled as partial
    functions into \<^typ>\<open>'a option\<close>. The value \<open>None\<close> means that the call returns no result:
    the loop is never left by its exit test. Memory is not modelled; in the source such a
    loop appends to its vector until an allocation fails.
\<close>

subsection \<open>Data\<close>

text \<open>
  \<^verbatim>\<open>struct Vertex { float x, y; float r, g, b; float alpha; }\<close> and
  \<^verbatim>\<open>struct Line { float x0, y0, x1, y1; }\<close>. The field names carry a prefix, because a
  record field is a global constant and the source reuses the same names for variables.
\<close>

record Vertex =
  v_x :: real
  v_y :: real
  v_r :: real
  v_g :: real
  v_b :: real
  v_alpha :: real

record Line =
  l_x0 :: real
  l_y0 :: real
  l_x1 :: real
  l_y1 :: real

subsection \<open>Machine integers\<close>

text \<open>
  The values of the C++ type \<^verbatim>\<open>int\<close>, and the result that a 32-bit two's complement
  machine gives for an integer \<open>n\<close>.
\<close>

definition int32 :: "int \<Rightarrow> bool" where
  "int32 n \<longleftrightarrow> - 2147483648 \<le> n \<and> n \<le> 2147483647"

definition wrap32 :: "int \<Rightarrow> int" where
  "wrap32 n = (n + 2147483648) mod 4294967296 - 2147483648"

text \<open>
  The operations \<^verbatim>\<open>a + b\<close>, \<^verbatim>\<open>a - b\<close>, \<^verbatim>\<open>a * b\<close>, \<^verbatim>\<open>-a\<close> and \<^verbatim>\<open>std::abs(a)\<close> on \<^verbatim>\<open>int\<close>:
  on values of the type the exact result wraps around. An argument outside the range is
  not a value of the type and cannot reach the source; on such arguments the operations
  are the ones of \<^typ>\<open>int\<close>.
\<close>

definition add32 :: "int \<Rightarrow> int \<Rightarrow> int" where
  "add32 a b = (if int32 a \<and> int32 b then wrap32 (a + b) else a + b)"

definition sub32 :: "int \<Rightarrow> int \<Rightarrow> int" where
  "sub32 a b = (if int32 a \<and> int32 b then wrap32 (a - b) else a - b)"

definition mul32 :: "int \<Rightarrow> int \<Rightarrow> int" where
  "mul32 a b = (if int32 a \<and> int32 b then wrap32 (a * b) else a * b)"

definition neg32 :: "int \<Rightarrow> int" where
  "neg32 a = (if int32 a then wrap32 (- a) else - a)"

definition abs32 :: "int \<Rightarrow> int" where
  "abs32 a = (if int32 a then wrap32 \<bar>a\<bar> else \<bar>a\<bar>)"

subsection \<open>generateLines\<close>

text \<open>
  The body of the \<^verbatim>\<open>for\<close> loop of \<^verbatim>\<open>generateLines\<close>, with the loop variable \<open>angle\<close> and
  the vector \<open>lines\<close> as explicit state. The source writes the constant \<^verbatim>\<open>3.14159\<close>, not
  \<open>\<pi>\<close>.
\<close>

partial_function (option) generateLines_loop ::
  "int \<Rightarrow> int \<Rightarrow> int \<Rightarrow> int \<Rightarrow> int \<Rightarrow> Line list \<Rightarrow> Line list option" where
  "generateLines_loop x0 y0 radius angleStep angle lines =
    (if angle < 360 then
       let rad = real_of_int angle * 3.14159 / 180.0;
           x1 = real_of_int x0 + real_of_int radius * cos rad;
           y1 = real_of_int y0 + real_of_int radius * sin rad;
           lines = lines @ [\<lparr>l_x0 = real_of_int x0, l_y0 = real_of_int y0, l_x1 = x1, l_y1 = y1\<rparr>]
       in generateLines_loop x0 y0 radius angleStep (add32 angle angleStep) lines
     else Some lines)"

definition generateLines :: "int \<Rightarrow> int \<Rightarrow> int \<Rightarrow> int \<Rightarrow> Line list option" where
  "generateLines x0 y0 radius angleStep = generateLines_loop x0 y0 radius angleStep 0 []"

subsection \<open>bresenhamLine\<close>

text \<open>
  One run of the \<^verbatim>\<open>while (true)\<close> loop from its head. The parameters \<open>x1 y1 width height
  dx dy sx sy\<close> are constant during the loop; \<open>x0 y0 err vertices\<close> are the variables the
  loop updates. Both tests use the value \<open>e2\<close> computed before the first update of \<open>err\<close>.
\<close>

partial_function (option) bresenham_loop ::
  "int \<Rightarrow> int \<Rightarrow> int \<Rightarrow> int \<Rightarrow> int \<Rightarrow> int \<Rightarrow> int \<Rightarrow> int \<Rightarrow> int \<Rightarrow> int \<Rightarrow> int \<Rightarrow> real list
    \<Rightarrow> real list option" where
  "bresenham_loop x1 y1 width height dx dy sx sy x0 y0 err vertices =
    (let ndcX = (2 * (real_of_int x0 + 0.5)) / real_of_int width - 1;
         ndcY = (2 * (real_of_int y0 + 0.5)) / real_of_int height - 1;
         vertices = vertices @ [ndcX];
         vertices = vertices @ [ndcY]
     in if x0 = x1 \<and> y0 = y1 then Some vertices
        else
          let e2 = mul32 2 err;
              err' = (if e2 \<ge> dy then add32 err dy else err);
              x0' = (if e2 \<ge> dy then add32 x0 sx else x0);
              err'' = (if e2 \<le> dx then add32 err' dx else err');
              y0' = (if e2 \<le> dx then add32 y0 sy else y0)
          in bresenham_loop x1 y1 width height dx dy sx sy x0' y0' err'' vertices)"

declare bresenham_loop.simps [code]

definition bresenhamLine :: "int \<Rightarrow> int \<Rightarrow> int \<Rightarrow> int \<Rightarrow> int \<Rightarrow> int \<Rightarrow> real list option" where
  "bresenhamLine x0 y0 x1 y1 width height =
    (let dx = abs32 (sub32 x1 x0); sx = (if x0 < x1 then 1 else - 1);
         dy = neg32 (abs32 (sub32 y1 y0)); sy = (if y0 < y1 then 1 else - 1);
         err = add32 dx dy
     in bresenham_loop x1 y1 width height dx dy sx sy x0 y0 err [])"

subsection \<open>xiaolinWuLine\<close>

text \<open>The two lambdas \<^verbatim>\<open>fpart\<close> and \<^verbatim>\<open>rfpart\<close> (lines 72 and 77).\<close>

definition fpart :: "real \<Rightarrow> real" where
  "fpart x = x - real_of_int \<lfloor>x\<rfloor>"

definition rfpart :: "real \<Rightarrow> real" where
  "rfpart x = 1 - fpart x"

text \<open>
  The lambda \<^verbatim>\<open>pushVertex\<close> (lines 111-113) captures \<open>vertices\<close>, \<open>r\<close>, \<open>g\<close> and \<open>b\<close> by
  reference; here they are arguments and the extended vector is returned.
\<close>

definition pushVertex ::
  "real \<Rightarrow> real \<Rightarrow> real \<Rightarrow> Vertex list \<Rightarrow> real \<Rightarrow> real \<Rightarrow> real \<Rightarrow> Vertex list" where
  "pushVertex r g b vertices ndcX ndcY alpha =
     vertices @ [\<lparr>v_x = ndcX, v_y = ndcY, v_r = r, v_g = g, v_b = b, v_alpha = alpha\<rparr>]"

text \<open>The conversion \<^verbatim>\<open>int(f)\<close> of a float: truncation towards zero.\<close>

definition int_of_float :: "real \<Rightarrow> int" where
  "int_of_float v = (if 0 \<le> v then \<lfloor>v\<rfloor> else \<lceil>v\<rceil>)"

text \<open>
  Step 1 (lines 82-92): the steepness test and the two conditional swaps. The result is the
  flag \<open>steep\<close> and the working endpoints \<open>(X0, Y0)\<close>, \<open>(X1, Y1)\<close>, whose first component is the
  coordinate along the primary axis.
\<close>

definition wu_orient :: "real \<Rightarrow> real \<Rightarrow> real \<Rightarrow> real \<Rightarrow> bool \<times> real \<times> real \<times> real \<times> real" where
  "wu_orient x0 y0 x1 y1 =
    (let steep = \<bar>y1 - y0\<bar> > \<bar>x1 - x0\<bar>;
         (X0, Y0, X1, Y1) = (x0, y0, x1, y1);
         (X0, Y0, X1, Y1) = (if steep then (Y0, X0, Y1, X1) else (X0, Y0, X1, Y1));
         (X0, Y0, X1, Y1) = (if X0 > X1 then (X1, Y1, X0, Y0) else (X0, Y0, X1, Y1))
     in (steep, X0, Y0, X1, Y1))"

text \<open>The main loop of the steep branch (lines 166-177).\<close>

function wu_loop_steep ::
  "int \<Rightarrow> int \<Rightarrow> real \<Rightarrow> real \<Rightarrow> int \<Rightarrow> int \<Rightarrow> real \<Rightarrow> real \<Rightarrow> real \<Rightarrow> Vertex list \<Rightarrow> Vertex list" where
  "wu_loop_steep x xpxl2 intery gradient width height r g b vertices =
    (if x < xpxl2 then
       let y = intery;
           ndcX1 = (2 * (real_of_int \<lfloor>y\<rfloor> + 0.5)) / real_of_int width - 1;
           ndcY1 = (2 * (real_of_int x + 0.5)) / real_of_int height - 1;
           vertices = pushVertex r g b vertices ndcX1 ndcY1 (rfpart y);
           ndcX2 = (2 * (real_of_int \<lfloor>y\<rfloor> + 1 + 0.5)) / real_of_int width - 1;
           ndcY2 = (2 * (real_of_int x + 0.5)) / real_of_int height - 1;
           vertices = pushVertex r g b vertices ndcX2 ndcY2 (fpart y);
           intery = intery + gradient
       in wu_loop_steep (x + 1) xpxl2 intery gradient width height r g b vertices
     else vertices)"
  by pat_completeness auto
termination
  by (relation "measure (\<lambda>(x, xpxl2, _). nat (xpxl2 - x))") auto

text \<open>The main loop of the other branch (lines 180-191).\<close>

function wu_loop_shallow ::
  "int \<Rightarrow> int \<Rightarrow> real \<Rightarrow> real \<Rightarrow> int \<Rightarrow> int \<Rightarrow> real \<Rightarrow> real \<Rightarrow> real \<Rightarrow> Vertex list \<Rightarrow> Vertex list" where
  "wu_loop_shallow x xpxl2 intery gradient width height r g b vertices =
    (if x < xpxl2 then
       let y = intery;
           ndcX1 = (2 * (real_of_int x + 0.5)) / real_of_int width - 1;
           ndcY1 = (2 * (real_of_int \<lfloor>y\<rfloor> + 0.5)) / real_of_int height - 1;
           vertices = pushVertex r g b vertices ndcX1 ndcY1 (rfpart y);
           ndcX2 = (2 * (real_of_int x + 0.5)) / real_of_int width - 1;
           ndcY2 = (2 * (real_of_int \<lfloor>y\<rfloor> + 1 + 0.5)) / real_of_int height - 1;
           vertices = pushVertex r g b vertices ndcX2 ndcY2 (fpart y);
           intery = intery + gradient
       in wu_loop_shallow (x + 1) xpxl2 intery gradient width height r g b vertices
     else vertices)"
  by pat_completeness auto
termination
  by (relation "measure (\<lambda>(x, xpxl2, _). nat (xpxl2 - x))") auto

text \<open>
  The function body, statement by statement (lines 67-194). A variable that the source
  assigns twice (\<open>xend\<close>, \<open>yend\<close>, \<open>xgap\<close>, \<open>vertices\<close>) is rebound by a later \<open>let\<close>. The
  default arguments \<^verbatim>\<open>r = 1.0f, g = 0.0f, b = 1.0f\<close> are passed explicitly.
\<close>

definition xiaolinWuLine ::
  "real \<Rightarrow> real \<Rightarrow> real \<Rightarrow> real \<Rightarrow> int \<Rightarrow> int \<Rightarrow> real \<Rightarrow> real \<Rightarrow> real \<Rightarrow> Vertex list" where
  "xiaolinWuLine x0 y0 x1 y1 width height r g b =
    (let vertices = [];
         (steep, X0, Y0, X1, Y1) = wu_orient x0 y0 x1 y1;
         dx = X1 - X0;
         dy = Y1 - Y0;
         gradient = (if dx = 0 then 1 else dy / dx);
         xend = real_of_int \<lfloor>X0\<rfloor>;
         yend = Y0 + gradient * (xend - X0);
         xgap = 1 - (X0 - xend);
         xpxl1 = xend;
         ypxl1 = real_of_int \<lfloor>yend\<rfloor>;
         vertices =
           (if steep then
              let ndcX1 = (2 * (ypxl1 + 0.5)) / real_of_int width - 1;
                  ndcY1 = (2 * (xpxl1 + 0.5)) / real_of_int height - 1;
                  vertices = pushVertex r g b vertices ndcX1 ndcY1 (rfpart yend * xgap);
                  ndcX2 = (2 * (ypxl1 + 1 + 0.5)) / real_of_int width - 1;
                  ndcY2 = (2 * (xpxl1 + 0.5)) / real_of_int height - 1
              in pushVertex r g b vertices ndcX2 ndcY2 (fpart yend * xgap)
            else
              let ndcX1 = (2 * (xpxl1 + 0.5)) / real_of_int width - 1;
                  ndcY1 = (2 * (ypxl1 + 0.5)) / real_of_int height - 1;
                  vertices = pushVertex r g b vertices ndcX1 ndcY1 (rfpart yend * xgap);
                  ndcX2 = (2 * (xpxl1 + 0.5)) / real_of_int width - 1;
                  ndcY2 = (2 * (ypxl1 + 1 + 0.5)) / real_of_int height - 1
              in pushVertex r g b vertices ndcX2 ndcY2 (fpart yend * xgap));
         intery = yend + gradient;
         xend = real_of_int \<lceil>X1\<rceil>;
         yend = Y1 + gradient * (xend - X1);
         xgap = 1 - (X1 - xend);
         xpxl2 = xend;
         ypxl2 = real_of_int \<lfloor>yend\<rfloor>;
         vertices =
           (if steep then
              let ndcX1 = (2 * (ypxl2 + 0.5)) / real_of_int width - 1;
                  ndcY1 = (2 * (xpxl2 + 0.5)) / real_of_int height - 1;
                  vertices = pushVertex r g b vertices ndcX1 ndcY1 (rfpart yend * xgap);
                  ndcX2 = (2 * (ypxl2 + 1 + 0.5)) / real_of_int width - 1;
                  ndcY2 = (2 * (xpxl2 + 0.5)) / real_of_int height - 1
              in pushVertex r g b vertices ndcX2 ndcY2 (fpart yend * xgap)
            else
              let ndcX1 = (2 * (xpxl2 + 0.5)) / real_of_int width - 1;
                  ndcY1 = (2 * (ypxl2 + 0.5)) / real_of_int height - 1;
                  vertices = pushVertex r g b vertices ndcX1 ndcY1 (rfpart yend * xgap);
                  ndcX2 = (2 * (xpxl2 + 0.5)) / real_of_int width - 1;
                  ndcY2 = (2 * (ypxl2 + 1 + 0.5)) / real_of_int height - 1
              in pushVertex r g b vertices ndcX2 ndcY2 (fpart yend * xgap))
     in if steep then
          wu_loop_steep (int_of_float xpxl1 + 1) (int_of_float xpxl2) intery gradient
            width height r g b vertices
        else
          wu_loop_shallow (int_of_float xpxl1 + 1) (int_of_float xpxl2) intery gradient
            width height r g b vertices)"

subsection \<open>Notions of the specification\<close>

text \<open>
  The source has no normalizer function: it writes the expression
  \<^verbatim>\<open>(2.0f * (c + 0.5f)) / d - 1.0f\<close> at each use (twice in \<^verbatim>\<open>bresenhamLine\<close>,
  twenty-four times in \<^verbatim>\<open>xiaolinWuLine\<close>). The specification names
  it; this definition follows the specification's words and is compared with the
  expressions of the source in the theorems.
\<close>

definition normalize :: "real \<Rightarrow> int \<Rightarrow> real" where
  "normalize c d = (2 * (c + 0.5)) / real_of_int d - 1.0"

text \<open>
  The flat vector of floats that holds the normalized centres of a sequence of pixels,
  \<open>x\<close> before \<open>y\<close>: the layout of the result of \<^verbatim>\<open>bresenhamLine\<close>.
\<close>

definition pixel_samples :: "int \<Rightarrow> int \<Rightarrow> (int \<times> int) list \<Rightarrow> real list" where
  "pixel_samples width height ps =
     concat (map (\<lambda>(px, py). [normalize (real_of_int px) width,
                               normalize (real_of_int py) height]) ps)"

text \<open>
  A pixel sequence walks in unit steps towards an end point: each pixel differs from its
  predecessor by \<open>sx\<close> or 0 in \<open>x\<close> and by \<open>sy\<close> or 0 in \<open>y\<close>, and is not the same pixel.
\<close>

fun steps_towards :: "int \<Rightarrow> int \<Rightarrow> (int \<times> int) list \<Rightarrow> bool" where
  "steps_towards sx sy ((px, py) # (qx, qy) # ps) =
     ((qx = px \<or> qx = px + sx) \<and> (qy = py \<or> qy = py + sy) \<and> (qx, qy) \<noteq> (px, py)
      \<and> steps_towards sx sy ((qx, qy) # ps))"
| "steps_towards sx sy ps = True"

text \<open>
  A coverage-split pair: the two vertices at primary-axis column \<open>col\<close> that straddle the
  secondary-axis position \<open>y\<close>, the lower one first, with the coverages scaled by \<open>gap\<close>.
  For a steep line the primary axis is the vertical one.
\<close>

definition coverage_pair ::
  "bool \<Rightarrow> int \<Rightarrow> int \<Rightarrow> real \<Rightarrow> real \<Rightarrow> real \<Rightarrow> int \<Rightarrow> real \<Rightarrow> real \<Rightarrow> Vertex list" where
  "coverage_pair steep width height r g b col y gap =
    (if steep then
       [\<lparr>v_x = normalize (real_of_int \<lfloor>y\<rfloor>) width, v_y = normalize (real_of_int col) height,
         v_r = r, v_g = g, v_b = b, v_alpha = rfpart y * gap\<rparr>,
        \<lparr>v_x = normalize (real_of_int (\<lfloor>y\<rfloor> + 1)) width, v_y = normalize (real_of_int col) height,
         v_r = r, v_g = g, v_b = b, v_alpha = fpart y * gap\<rparr>]
     else
       [\<lparr>v_x = normalize (real_of_int col) width, v_y = normalize (real_of_int \<lfloor>y\<rfloor>) height,
         v_r = r, v_g = g, v_b = b, v_alpha = rfpart y * gap\<rparr>,
        \<lparr>v_x = normalize (real_of_int col) width, v_y = normalize (real_of_int (\<lfloor>y\<rfloor> + 1)) height,
         v_r = r, v_g = g, v_b = b, v_alpha = fpart y * gap\<rparr>])"

text \<open>
  The pairs of \<open>n\<close> consecutive interior columns from column \<open>x\<close> on, where the intersection
  starts at \<open>intery\<close> and grows by \<open>gradient\<close> per column; the gap of an interior column is 1.
\<close>

definition interior_pairs ::
  "bool \<Rightarrow> int \<Rightarrow> int \<Rightarrow> real \<Rightarrow> real \<Rightarrow> real \<Rightarrow> int \<Rightarrow> real \<Rightarrow> real \<Rightarrow> nat \<Rightarrow> Vertex list" where
  "interior_pairs steep width height r g b x intery gradient n =
     concat (map (\<lambda>k. coverage_pair steep width height r g b (x + int k)
                          (intery + real k * gradient) 1) [0..<n])"

text \<open>Step 2 (lines 97-99) as a function of the working endpoints.\<close>

definition wu_gradient :: "real \<Rightarrow> real \<Rightarrow> real \<Rightarrow> real \<Rightarrow> real" where
  "wu_gradient X0 Y0 X1 Y1 = (if X1 - X0 = 0 then 1 else (Y1 - Y0) / (X1 - X0))"

text \<open>
  The segment that one iteration of \<^verbatim>\<open>generateLines\<close> appends for the angle \<open>angle\<close>
  (in degrees).
\<close>

definition radial_line :: "int \<Rightarrow> int \<Rightarrow> int \<Rightarrow> int \<Rightarrow> Line" where
  "radial_line x0 y0 radius angle =
     \<lparr>l_x0 = real_of_int x0, l_y0 = real_of_int y0,
      l_x1 = real_of_int x0 + real_of_int radius * cos (real_of_int angle * 3.14159 / 180),
      l_y1 = real_of_int y0 + real_of_int radius * sin (real_of_int angle * 3.14159 / 180)\<rparr>"

subsection \<open>Machine integers without overflow\<close>

lemma wrap32_id: "int32 n \<Longrightarrow> wrap32 n = n"
  by (simp add: int32_def wrap32_def)

lemma int32_wrap32 [simp]: "int32 (wrap32 n)"
proof -
  have "0 \<le> (n + 2147483648) mod 4294967296" "(n + 2147483648) mod 4294967296 < 4294967296"
    by simp_all
  then show ?thesis unfolding int32_def wrap32_def by linarith
qed

lemma add32_id: "int32 (a + b) \<Longrightarrow> add32 a b = a + b"
  by (simp add: add32_def wrap32_id)

lemma sub32_id: "int32 (a - b) \<Longrightarrow> sub32 a b = a - b"
  by (simp add: sub32_def wrap32_id)

lemma mul32_id: "int32 (a * b) \<Longrightarrow> mul32 a b = a * b"
  by (simp add: mul32_def wrap32_id)

lemma neg32_id: "int32 (- a) \<Longrightarrow> neg32 a = - a"
  by (simp add: neg32_def wrap32_id)

lemma abs32_id: "int32 \<bar>a\<bar> \<Longrightarrow> abs32 a = \<bar>a\<bar>"
  by (simp add: abs32_def wrap32_id)

lemma int32_between:
  assumes "int32 a" "int32 b" "a \<le> c" "c \<le> b"
  shows "int32 c"
  using assms by (simp add: int32_def)

subsection \<open>Arithmetic of unit steps\<close>

lemma unit_step_advance:
  fixes s :: int
  assumes "s = 1 \<or> s = - 1"
  shows "s * (a - (b + s)) = s * (a - b) - 1"
  using assms by auto

lemma cross_zero_x:
  fixes DX r :: int
  assumes "0 < DX" "- DX < 2 * (- (DX * r))" "2 * (- (DX * r)) \<le> DX"
  shows "r = 0"
proof (rule ccontr)
  assume "r \<noteq> 0"
  then consider "1 \<le> r" | "r \<le> - 1" by linarith
  then show False
  proof cases
    case 1
    then have "DX * 1 \<le> DX * r" using assms(1) by (intro mult_left_mono) auto
    with assms show False by linarith
  next
    case 2
    then have "DX * r \<le> DX * (- 1)" using assms(1) by (intro mult_left_mono) auto
    with assms show False by linarith
  qed
qed

lemma cross_zero_y:
  fixes DY r :: int
  assumes "0 < DY" "- DY \<le> 2 * (DY * r)" "2 * (DY * r) < DY"
  shows "r = 0"
proof (rule ccontr)
  assume "r \<noteq> 0"
  then consider "1 \<le> r" | "r \<le> - 1" by linarith
  then show False
  proof cases
    case 1
    then have "DY * 1 \<le> DY * r" using assms(1) by (intro mult_left_mono) auto
    with assms show False by linarith
  next
    case 2
    then have "DY * r \<le> DY * (- 1)" using assms(1) by (intro mult_left_mono) auto
    with assms show False by linarith
  qed
qed

lemma unit_step_between:
  fixes s :: int
  assumes "s = 1 \<or> s = - 1" "1 \<le> s * (a - b)"
  shows "min a b \<le> b + s" "b + s \<le> max a b"
  using assms by auto

lemma x_major_ry_nonneg:
  fixes DX DY rx ry :: int
  assumes "0 < DX" "0 \<le> DY" "0 \<le> rx" "2 * (DY * rx - DX * ry) \<le> DX"
  shows "0 \<le> ry"
proof (rule ccontr)
  assume "\<not> 0 \<le> ry"
  then have "ry \<le> - 1" by simp
  then have "DX * ry \<le> DX * (- 1)" using assms(1) by (intro mult_left_mono) auto
  then have "DX * ry \<le> - DX" by simp
  moreover have "0 \<le> DY * rx" using assms(2,3) by simp
  moreover have "2 * (DY * rx) - 2 * (DX * ry) \<le> DX" using assms(4) by (simp add: algebra_simps)
  ultimately show False using assms(1) by linarith
qed

lemma y_major_rx_nonneg:
  fixes DX DY rx ry :: int
  assumes "0 < DY" "0 \<le> DX" "0 \<le> ry" "- DY \<le> 2 * (DY * rx - DX * ry)"
  shows "0 \<le> rx"
proof (rule ccontr)
  assume "\<not> 0 \<le> rx"
  then have "rx \<le> - 1" by simp
  then have "DY * rx \<le> DY * (- 1)" using assms(1) by (intro mult_left_mono) auto
  then have "DY * rx \<le> - DY" by simp
  moreover have "0 \<le> DX * ry" using assms(2,3) by simp
  moreover have "- DY \<le> 2 * (DY * rx) - 2 * (DX * ry)" using assms(4) by (simp add: algebra_simps)
  ultimately show False using assms(1) by linarith
qed

subsection \<open>The layout of the sample vector\<close>

lemma pixel_samples_single:
  "pixel_samples w h [(px, py)] = [normalize (real_of_int px) w, normalize (real_of_int py) h]"
  by (simp add: pixel_samples_def)

lemma pixel_samples_Cons:
  "pixel_samples w h (p # ps) = pixel_samples w h [p] @ pixel_samples w h ps"
  by (simp add: pixel_samples_def)

lemma pixel_samples_append:
  "pixel_samples w h (ps @ qs) = pixel_samples w h ps @ pixel_samples w h qs"
  by (simp add: pixel_samples_def)

lemma length_pixel_samples: "length (pixel_samples w h ps) = 2 * length ps"
  by (induction ps) (auto simp: pixel_samples_def)

lemma pixel_samples_take2:
  assumes "ps \<noteq> []"
  shows "take 2 (pixel_samples w h ps)
           = [normalize (real_of_int (fst (hd ps))) w, normalize (real_of_int (snd (hd ps))) h]"
proof -
  from assms obtain p qs where "ps = p # qs" by (cases ps) auto
  then show ?thesis by (cases p) (simp add: pixel_samples_def)
qed

lemma pixel_samples_last2:
  assumes "ps \<noteq> []"
  shows "drop (length (pixel_samples w h ps) - 2) (pixel_samples w h ps)
           = [normalize (real_of_int (fst (last ps))) w, normalize (real_of_int (snd (last ps))) h]"
proof -
  from assms have ps: "ps = butlast ps @ [last ps]" by simp
  have "pixel_samples w h ps = pixel_samples w h (butlast ps) @ pixel_samples w h [last ps]"
    by (subst ps) (rule pixel_samples_append)
  moreover have "pixel_samples w h [last ps]
      = [normalize (real_of_int (fst (last ps))) w, normalize (real_of_int (snd (last ps))) h]"
    by (cases "last ps") (simp add: pixel_samples_single)
  ultimately show ?thesis by simp
qed





subsection \<open>The stepping loop of bresenhamLine\<close>

text \<open>
  The invariant. Let \<open>DX = \<bar>x1 - x0\<bar>\<close> and \<open>DY = \<bar>y1 - y0\<bar>\<close> for the initial endpoints (the
  source holds \<open>dy = - DY\<close>), let \<open>rx = sx * (x1 - x0)\<close> and \<open>ry = sy * (y1 - y0)\<close> be the
  remaining distances at the loop head, and \<open>D = DY * rx - DX * ry\<close>. Then
  \<open>err = DX - DY + D\<close> holds throughout. When \<open>DY \<le> DX\<close>, also \<open>- DX < 2 * D \<le> DX\<close> holds,
  every iteration steps in \<open>x\<close>, and \<open>rx = 0\<close> forces \<open>ry = 0\<close>. When \<open>DX < DY\<close>, the mirrored
  bounds \<open>- DY \<le> 2 * D < DY\<close> hold and every iteration steps in \<open>y\<close>. The loop therefore
  exits after \<open>max DX DY\<close> steps, with the end pixel as the last one emitted.

  The largest value that the loop computes is \<open>e2 = 2 * err\<close>, which stays below
  \<open>3 * max DX DY\<close> in absolute value. When \<open>3 * max DX DY\<close> fits in 32 bits, no operation
  wraps around, and \<open>x0\<close> and \<open>y0\<close> stay between the two endpoints.
\<close>

lemma steps_towards_Cons:
  assumes "ps \<noteq> []" "hd ps = (qx, qy)" "qx = px \<or> qx = px + sx" "qy = py \<or> qy = py + sy"
    "(qx, qy) \<noteq> (px, py)" "steps_towards sx sy ps"
  shows "steps_towards sx sy ((px, py) # ps)"
  using assms by (cases ps) auto

lemma loop_x_major:
  assumes sx: "sx = 1 \<or> sx = -1" and sy: "sy = 1 \<or> sy = -1"
    and DY: "0 \<le> DY" "DY \<le> DX" and DX: "0 < DX" and B: "3 * DX \<le> 2147483647"
    and r1: "int32 x1" "int32 y1"
  shows "sx * (x1 - x0) = int n \<Longrightarrow> int32 x0 \<Longrightarrow> int32 y0 \<Longrightarrow>
         err = DX - DY + (DY * (sx * (x1 - x0)) - DX * (sy * (y1 - y0))) \<Longrightarrow>
         - DX < 2 * (DY * (sx * (x1 - x0)) - DX * (sy * (y1 - y0))) \<Longrightarrow>
         2 * (DY * (sx * (x1 - x0)) - DX * (sy * (y1 - y0))) \<le> DX \<Longrightarrow>
         \<exists>ps. bresenham_loop x1 y1 w h DX (- DY) sx sy x0 y0 err acc
                 = Some (acc @ pixel_samples w h ps)
              \<and> length ps = n + 1 \<and> hd ps = (x0, y0) \<and> last ps = (x1, y1)
              \<and> (x1, y1) \<notin> set (butlast ps) \<and> steps_towards sx sy ps"
proof (induction n arbitrary: x0 y0 err acc)
  case 0
  from 0(1) sx have x: "x0 = x1" by auto
  have "sy * (y1 - y0) = 0"
    using 0(5,6) x by (intro cross_zero_x[OF DX]) simp_all
  with sy have y: "y0 = y1" by auto
  have "bresenham_loop x1 y1 w h DX (- DY) sx sy x0 y0 err acc
          = Some (acc @ pixel_samples w h [(x0, y0)])"
    by (subst bresenham_loop.simps) (simp add: x y pixel_samples_def normalize_def Let_def)
  then show ?case using x y by (intro exI[of _ "[(x0, y0)]"]) simp
next
  case (Suc n)
  define rx ry where "rx = sx * (x1 - x0)" and "ry = sy * (y1 - y0)"
  define D where "D = DY * rx - DX * ry"
  note prems = Suc.prems[folded rx_def ry_def, folded D_def]
  from Suc.prems(1) have ne: "x0 \<noteq> x1" by auto
  have xstep: "- DY \<le> 2 * err" using prems(4,5) DY DX by linarith
  have e2: "mul32 2 err = 2 * err"
    using prems(4,5,6) DY DX B by (intro mul32_id) (simp add: int32_def)
  have errx: "add32 err (- DY) = err - DY"
    using add32_id[of err "- DY"] prems(4,5,6) DY DX B by (simp add: int32_def)
  have "1 \<le> sx * (x1 - x0)" using Suc.prems(1) by simp
  from unit_step_between[OF sx this] r1(1) Suc.prems(2)
  have x0r: "int32 (x0 + sx)" by (auto simp: int32_def)
  then have x0s: "add32 x0 sx = x0 + sx" by (rule add32_id)
  define y0' where "y0' = (if 2 * err \<le> DX then y0 + sy else y0)"
  define err' where "err' = (if 2 * err \<le> DX then err - DY + DX else err - DY)"
  have rx': "sx * (x1 - (x0 + sx)) = rx - 1"
    unfolding rx_def by (rule unit_step_advance[OF sx])
  have ry': "sy * (y1 - y0') = (if 2 * err \<le> DX then ry - 1 else ry)"
    unfolding ry_def y0'_def using unit_step_advance[OF sy, of y1 y0] by simp
  have D': "DY * (sx * (x1 - (x0 + sx))) - DX * (sy * (y1 - y0'))
              = (if 2 * err \<le> DX then D - DY + DX else D - DY)"
    unfolding rx' ry' D_def by (simp add: algebra_simps)
  have n: "sx * (x1 - (x0 + sx)) = int n"
    unfolding rx' using prems(1) by simp
  have e: "err' = DX - DY + (DY * (sx * (x1 - (x0 + sx))) - DX * (sy * (y1 - y0')))"
    unfolding D' using prems(4) by (simp add: err'_def)
  have lo: "- DX < 2 * (DY * (sx * (x1 - (x0 + sx))) - DX * (sy * (y1 - y0')))"
    unfolding D' using prems(4,5,6) DY DX by (simp split: if_splits)
  have hi: "2 * (DY * (sx * (x1 - (x0 + sx))) - DX * (sy * (y1 - y0'))) \<le> DX"
    unfolding D' using prems(4,5,6) DY DX by (simp split: if_splits)
  have "0 \<le> sx * (x1 - (x0 + sx))" unfolding n by simp
  from x_major_ry_nonneg[OF DX DY(1) this hi] have ry'0: "0 \<le> sy * (y1 - y0')" .
  have ystep: "add32 y0 sy = y0 + sy" "add32 (err - DY) DX = err - DY + DX" "int32 (y0 + sy)"
    if c: "2 * err \<le> DX"
  proof -
    from ry'0 c have "1 \<le> sy * (y1 - y0)"
      unfolding ry' ry_def by simp
    from unit_step_between[OF sy this] r1(2) Suc.prems(3)
    show "int32 (y0 + sy)" by (auto simp: int32_def)
    then show "add32 y0 sy = y0 + sy" by (rule add32_id)
    show "add32 (err - DY) DX = err - DY + DX"
      using prems(4,5,6) DY DX B c by (intro add32_id) (simp add: int32_def)
  qed
  have y0r: "int32 y0'"
    unfolding y0'_def using ystep(3) Suc.prems(3) by simp
  from Suc.IH[OF n x0r y0r e lo hi, of "acc @ pixel_samples w h [(x0, y0)]"]
  obtain ps where ps: "bresenham_loop x1 y1 w h DX (- DY) sx sy (x0 + sx) y0' err'
        (acc @ pixel_samples w h [(x0, y0)]) = Some ((acc @ pixel_samples w h [(x0, y0)]) @ pixel_samples w h ps)"
     "length ps = n + 1" "hd ps = (x0 + sx, y0')" "last ps = (x1, y1)" "(x1, y1) \<notin> set (butlast ps)"
     "steps_towards sx sy ps"
    by blast
  have "bresenham_loop x1 y1 w h DX (- DY) sx sy x0 y0 err acc
      = bresenham_loop x1 y1 w h DX (- DY) sx sy (x0 + sx) y0' err' (acc @ pixel_samples w h [(x0, y0)])"
  proof (cases "2 * err \<le> DX")
    case True
    show ?thesis
      by (subst bresenham_loop.simps)
         (use ne xstep True in \<open>simp add: Let_def e2 errx x0s ystep[OF True] y0'_def err'_def
            pixel_samples_def normalize_def\<close>)
  next
    case False
    show ?thesis
      by (subst bresenham_loop.simps)
         (use ne xstep False in \<open>simp add: Let_def e2 errx x0s y0'_def err'_def
            pixel_samples_def normalize_def\<close>)
  qed
  with ps have res: "bresenham_loop x1 y1 w h DX (- DY) sx sy x0 y0 err acc
      = Some (acc @ pixel_samples w h ((x0, y0) # ps))"
    by (simp add: pixel_samples_def)
  from ps(2) have nonempty: "ps \<noteq> []" by auto
  have "x0 + sx \<noteq> x0" using sx by auto
  then have "steps_towards sx sy ((x0, y0) # ps)"
    using nonempty ps(3,6) by (intro steps_towards_Cons[of ps "x0 + sx" y0']) (auto simp: y0'_def)
  with res nonempty show ?case using ps(2-5) ne
    by (intro exI[of _ "(x0, y0) # ps"]) simp
qed


lemma loop_y_major:
  assumes sx: "sx = 1 \<or> sx = -1" and sy: "sy = 1 \<or> sy = -1"
    and DX: "0 \<le> DX" "DX < DY" and B: "3 * DY \<le> 2147483647"
    and r1: "int32 x1" "int32 y1"
  shows "sy * (y1 - y0) = int n \<Longrightarrow> int32 x0 \<Longrightarrow> int32 y0 \<Longrightarrow>
         err = DX - DY + (DY * (sx * (x1 - x0)) - DX * (sy * (y1 - y0))) \<Longrightarrow>
         - DY \<le> 2 * (DY * (sx * (x1 - x0)) - DX * (sy * (y1 - y0))) \<Longrightarrow>
         2 * (DY * (sx * (x1 - x0)) - DX * (sy * (y1 - y0))) < DY \<Longrightarrow>
         \<exists>ps. bresenham_loop x1 y1 w h DX (- DY) sx sy x0 y0 err acc
                 = Some (acc @ pixel_samples w h ps)
              \<and> length ps = n + 1 \<and> hd ps = (x0, y0) \<and> last ps = (x1, y1)
              \<and> (x1, y1) \<notin> set (butlast ps) \<and> steps_towards sx sy ps"
proof (induction n arbitrary: x0 y0 err acc)
  case 0
  from DX have DY: "0 < DY" by simp
  from 0(1) sy have y: "y0 = y1" by auto
  have "sx * (x1 - x0) = 0"
    using 0(5,6) y by (intro cross_zero_y[OF DY]) simp_all
  with sx have x: "x0 = x1" by auto
  have "bresenham_loop x1 y1 w h DX (- DY) sx sy x0 y0 err acc
          = Some (acc @ pixel_samples w h [(x0, y0)])"
    by (subst bresenham_loop.simps) (simp add: x y pixel_samples_def normalize_def Let_def)
  then show ?case using x y by (intro exI[of _ "[(x0, y0)]"]) simp
next
  case (Suc n)
  from DX have DY: "0 < DY" by simp
  define rx ry where "rx = sx * (x1 - x0)" and "ry = sy * (y1 - y0)"
  define D where "D = DY * rx - DX * ry"
  note prems = Suc.prems[folded rx_def ry_def, folded D_def]
  from Suc.prems(1) have ne: "y0 \<noteq> y1" by auto
  have ystep: "2 * err \<le> DX" using prems(4,6) DX by linarith
  have e2: "mul32 2 err = 2 * err"
    using prems(4,5,6) DX B by (intro mul32_id) (simp add: int32_def)
  have "1 \<le> sy * (y1 - y0)" using Suc.prems(1) by simp
  from unit_step_between[OF sy this] r1(2) Suc.prems(3)
  have y0r: "int32 (y0 + sy)" by (auto simp: int32_def)
  then have y0s: "add32 y0 sy = y0 + sy" by (rule add32_id)
  define x0' where "x0' = (if - DY \<le> 2 * err then x0 + sx else x0)"
  define err' where "err' = (if - DY \<le> 2 * err then err - DY + DX else err + DX)"
  have ry': "sy * (y1 - (y0 + sy)) = ry - 1"
    unfolding ry_def by (rule unit_step_advance[OF sy])
  have rx': "sx * (x1 - x0') = (if - DY \<le> 2 * err then rx - 1 else rx)"
    unfolding rx_def x0'_def using unit_step_advance[OF sx, of x1 x0] by simp
  have D': "DY * (sx * (x1 - x0')) - DX * (sy * (y1 - (y0 + sy)))
              = (if - DY \<le> 2 * err then D - DY + DX else D + DX)"
    unfolding rx' ry' D_def by (simp add: algebra_simps)
  have n: "sy * (y1 - (y0 + sy)) = int n"
    unfolding ry' using prems(1) by simp
  have e: "err' = DX - DY + (DY * (sx * (x1 - x0')) - DX * (sy * (y1 - (y0 + sy))))"
    unfolding D' using prems(4) by (simp add: err'_def)
  have lo: "- DY \<le> 2 * (DY * (sx * (x1 - x0')) - DX * (sy * (y1 - (y0 + sy))))"
    unfolding D' using prems(4,5,6) DX by (simp split: if_splits)
  have hi: "2 * (DY * (sx * (x1 - x0')) - DX * (sy * (y1 - (y0 + sy)))) < DY"
    unfolding D' using prems(4,5,6) DX by (simp split: if_splits)
  have "0 \<le> sy * (y1 - (y0 + sy))" unfolding n by simp
  from y_major_rx_nonneg[OF DY DX(1) this lo] have rx'0: "0 \<le> sx * (x1 - x0')" .
  have xstep: "add32 x0 sx = x0 + sx" "add32 err (- DY) = err - DY"
    "add32 (err - DY) DX = err - DY + DX" "int32 (x0 + sx)"
    if c: "- DY \<le> 2 * err"
  proof -
    from rx'0 c have "1 \<le> sx * (x1 - x0)"
      unfolding rx' rx_def by simp
    from unit_step_between[OF sx this] r1(1) Suc.prems(2)
    show "int32 (x0 + sx)" by (auto simp: int32_def)
    then show "add32 x0 sx = x0 + sx" by (rule add32_id)
    show "add32 err (- DY) = err - DY"
      using add32_id[of err "- DY"] prems(4,5,6) DX B c by (simp add: int32_def)
    show "add32 (err - DY) DX = err - DY + DX"
      using prems(4,5,6) DX B c by (intro add32_id) (simp add: int32_def)
  qed
  have noxstep: "add32 err DX = err + DX" if c: "\<not> - DY \<le> 2 * err"
    using prems(4,5,6) DX B c by (intro add32_id) (simp add: int32_def)
  have x0r: "int32 x0'"
    unfolding x0'_def using xstep(4) Suc.prems(2) by simp
  from Suc.IH[OF n x0r y0r e lo hi, of "acc @ pixel_samples w h [(x0, y0)]"]
  obtain ps where ps: "bresenham_loop x1 y1 w h DX (- DY) sx sy x0' (y0 + sy) err'
        (acc @ pixel_samples w h [(x0, y0)]) = Some ((acc @ pixel_samples w h [(x0, y0)]) @ pixel_samples w h ps)"
     "length ps = n + 1" "hd ps = (x0', y0 + sy)" "last ps = (x1, y1)" "(x1, y1) \<notin> set (butlast ps)"
     "steps_towards sx sy ps"
    by blast
  have "bresenham_loop x1 y1 w h DX (- DY) sx sy x0 y0 err acc
      = bresenham_loop x1 y1 w h DX (- DY) sx sy x0' (y0 + sy) err' (acc @ pixel_samples w h [(x0, y0)])"
  proof (cases "- DY \<le> 2 * err")
    case True
    show ?thesis
      by (subst bresenham_loop.simps)
         (use ne ystep True in \<open>simp add: Let_def e2 y0s xstep[OF True] x0'_def err'_def
            pixel_samples_def normalize_def\<close>)
  next
    case False
    show ?thesis
      by (subst bresenham_loop.simps)
         (use ne ystep False in \<open>simp add: Let_def e2 y0s noxstep[OF False] x0'_def err'_def
            pixel_samples_def normalize_def\<close>)
  qed
  with ps have res: "bresenham_loop x1 y1 w h DX (- DY) sx sy x0 y0 err acc
      = Some (acc @ pixel_samples w h ((x0, y0) # ps))"
    by (simp add: pixel_samples_def)
  from ps(2) have nonempty: "ps \<noteq> []" by auto
  have "y0 + sy \<noteq> y0" using sy by auto
  then have "steps_towards sx sy ((x0, y0) # ps)"
    using nonempty ps(3,6) by (intro steps_towards_Cons[of ps x0' "y0 + sy"]) (auto simp: x0'_def)
  with res nonempty show ?case using ps(2-5) ne
    by (intro exI[of _ "(x0, y0) # ps"]) simp
qed

text \<open>
  The whole function, for endpoints of type \<^verbatim>\<open>int\<close> whose coordinates differ by at most
  \<open>715827882\<close>, a third of the largest \<^verbatim>\<open>int\<close>.
\<close>

lemma bresenhamLine_path:
  assumes r: "int32 x0" "int32 y0" "int32 x1" "int32 y1"
    and b: "\<bar>x1 - x0\<bar> \<le> 715827882" "\<bar>y1 - y0\<bar> \<le> 715827882"
  shows "\<exists>ps. bresenhamLine x0 y0 x1 y1 w h = Some (pixel_samples w h ps)
      \<and> length ps = nat (max \<bar>x1 - x0\<bar> \<bar>y1 - y0\<bar>) + 1
      \<and> hd ps = (x0, y0) \<and> last ps = (x1, y1) \<and> (x1, y1) \<notin> set (butlast ps)
      \<and> steps_towards (if x0 < x1 then 1 else - 1) (if y0 < y1 then 1 else - 1) ps"
proof -
  define sx :: int where "sx = (if x0 < x1 then 1 else - 1)"
  define sy :: int where "sy = (if y0 < y1 then 1 else - 1)"
  define DX DY where "DX = \<bar>x1 - x0\<bar>" and "DY = \<bar>y1 - y0\<bar>"
  have sx: "sx = 1 \<or> sx = - 1" and sy: "sy = 1 \<or> sy = - 1"
    by (simp_all add: sx_def sy_def)
  have rx: "sx * (x1 - x0) = DX" and ry: "sy * (y1 - y0) = DY"
    by (simp_all add: sx_def sy_def DX_def DY_def)
  have D: "DY * (sx * (x1 - x0)) - DX * (sy * (y1 - y0)) = 0"
    unfolding rx ry by simp
  have nonneg: "0 \<le> DX" "0 \<le> DY" by (simp_all add: DX_def DY_def)
  have bound: "DX \<le> 715827882" "DY \<le> 715827882" using b by (simp_all add: DX_def DY_def)
  have m: "abs32 (sub32 x1 x0) = DX" "neg32 (abs32 (sub32 y1 y0)) = - DY"
  proof -
    have "int32 (x1 - x0)" "int32 (y1 - y0)" using b by (auto simp: int32_def)
    then have s: "sub32 x1 x0 = x1 - x0" "sub32 y1 y0 = y1 - y0" by (simp_all add: sub32_id)
    have "int32 \<bar>x1 - x0\<bar>" "int32 \<bar>y1 - y0\<bar>" using b by (auto simp: int32_def)
    then have a: "abs32 (x1 - x0) = DX" "abs32 (y1 - y0) = DY"
      by (simp_all add: abs32_id DX_def DY_def)
    have "int32 (- DY)" using bound nonneg by (simp add: int32_def)
    then show "abs32 (sub32 x1 x0) = DX" "neg32 (abs32 (sub32 y1 y0)) = - DY"
      by (simp_all add: s a neg32_id)
  qed
  have "int32 (DX + - DY)" using bound nonneg by (simp add: int32_def)
  then have e: "add32 DX (- DY) = DX + - DY" by (rule add32_id)
  have unf: "bresenhamLine x0 y0 x1 y1 w h
               = bresenham_loop x1 y1 w h DX (- DY) sx sy x0 y0 (DX + - DY) []"
    by (simp add: bresenhamLine_def Let_def m e flip: sx_def sy_def)
  consider (deg) "DX = 0" "DY = 0" | (xm) "DY \<le> DX" "0 < DX" | (ym) "DX < DY"
    using nonneg by linarith
  then have "\<exists>ps. bresenhamLine x0 y0 x1 y1 w h = Some (pixel_samples w h ps)
      \<and> length ps = nat (max DX DY) + 1
      \<and> hd ps = (x0, y0) \<and> last ps = (x1, y1) \<and> (x1, y1) \<notin> set (butlast ps)
      \<and> steps_towards sx sy ps"
  proof cases
    case deg
    then have eq: "x0 = x1" "y0 = y1" by (simp_all add: DX_def DY_def)
    have "bresenhamLine x0 y0 x1 y1 w h = Some (pixel_samples w h [(x0, y0)])"
      unfolding unf
      by (subst bresenham_loop.simps) (simp add: eq pixel_samples_def normalize_def Let_def)
    then show ?thesis using eq deg by (intro exI[of _ "[(x0, y0)]"]) simp
  next
    case xm
    have n: "sx * (x1 - x0) = int (nat DX)" using rx nonneg by simp
    have B: "3 * DX \<le> 2147483647" using bound by simp
    from loop_x_major[OF sx sy nonneg(2) xm B r(3,4) n r(1,2), of "DX + - DY" w h "[]"]
    show ?thesis unfolding unf D using xm nonneg
      by (simp add: max_def)
  next
    case ym
    have n: "sy * (y1 - y0) = int (nat DY)" using ry nonneg by simp
    have B: "3 * DY \<le> 2147483647" using bound by simp
    from loop_y_major[OF sx sy nonneg(1) ym B r(3,4) n r(1,2), of "DX + - DY" w h "[]"]
    show ?thesis unfolding unf D using ym nonneg
      by (simp add: max_def)
  qed
  then show ?thesis unfolding sx_def sy_def DX_def DY_def .
qed

subsection \<open>A run of bresenhamLine that overflows\<close>

text \<open>
  For the horizontal segment from \<open>(0, y)\<close> to \<open>(2^30, y)\<close> the error term starts at \<open>2^30\<close>,
  and \<open>e2 = 2 * err\<close> wraps around to \<open>- 2^31\<close> in the first iteration, so the loop steps in
  \<open>y\<close> and leaves the row. From then on the error term runs through the cycle
  \<open>2^30, - 2^31, - 2^30, 0\<close>, while \<open>y0 - y + 2 * x0\<close> alternates between 0 and \<open>-1\<close> modulo
  \<open>2^32\<close>. At the end pixel this value would be \<open>2^31\<close>, so the exit test never succeeds.
\<close>

lemma wrap_add_left_gen:
  fixes a c K N :: int
  shows "((a + K) mod N - K + c + K) mod N - K = (a + c + K) mod N - K"
proof -
  have "(a + K) mod N - K + c + K = (a + K) mod N + c" by simp
  then have "((a + K) mod N - K + c + K) mod N = ((a + K) mod N + c) mod N" by (rule arg_cong)
  also have "\<dots> = (a + K + c) mod N" by (rule mod_add_left_eq)
  also have "a + K + c = a + c + K" by simp
  finally show ?thesis by (rule arg_cong)
qed

lemma wrap32_add_left: "wrap32 (wrap32 a + c) = wrap32 (a + c)"
  unfolding wrap32_def by (rule wrap_add_left_gen)

lemma wrap_add_twice_gen:
  fixes b c K N :: int
  assumes "2 * K = N"
  shows "(c + 2 * ((b + K) mod N - K) + K) mod N - K = (c + 2 * b + K) mod N - K"
proof -
  have "c + 2 * (m - K) + K = (c + K - N) + 2 * m" for m
    using assms by presburger
  then have "(c + 2 * ((b + K) mod N - K) + K) mod N = ((c + K - N) + 2 * ((b + K) mod N)) mod N"
    by (rule arg_cong)
  also have "\<dots> = ((c + K - N) + 2 * (b + K)) mod N"
    by (metis mod_add_right_eq mod_mult_right_eq)
  also have "(c + K - N) + 2 * (b + K) = c + 2 * b + K"
    using assms by presburger
  finally show ?thesis by (rule arg_cong)
qed

lemma wrap32_add_twice: "wrap32 (c + 2 * wrap32 b) = wrap32 (c + 2 * b)"
  unfolding wrap32_def by (rule wrap_add_twice_gen) simp

lemma cycle_step_y:
  assumes "int32 y0"
  shows "wrap32 (add32 y0 (- 1) - y1 + 2 * x0) = wrap32 (wrap32 (y0 - y1 + 2 * x0) + (- 1))"
proof -
  have "add32 y0 (- 1) = wrap32 (y0 - 1)" using assms by (simp add: add32_def int32_def)
  then have "wrap32 (add32 y0 (- 1) - y1 + 2 * x0) = wrap32 (wrap32 (y0 - 1) + (2 * x0 - y1))"
    by (simp add: algebra_simps)
  also have "\<dots> = wrap32 (y0 - 1 + (2 * x0 - y1))" by (rule wrap32_add_left)
  also have "\<dots> = wrap32 (y0 - y1 + 2 * x0 + (- 1))" by (simp add: algebra_simps)
  also have "\<dots> = wrap32 (wrap32 (y0 - y1 + 2 * x0) + (- 1))" by (rule wrap32_add_left[symmetric])
  finally show ?thesis .
qed

lemma cycle_step_xy:
  assumes "int32 y0" "int32 x0"
  shows "wrap32 (add32 y0 (- 1) - y1 + 2 * add32 x0 1) = wrap32 (wrap32 (y0 - y1 + 2 * x0) + 1)"
proof -
  have "add32 y0 (- 1) = wrap32 (y0 - 1)" "add32 x0 1 = wrap32 (x0 + 1)"
    using assms by (simp_all add: add32_def int32_def)
  then have "wrap32 (add32 y0 (- 1) - y1 + 2 * add32 x0 1)
      = wrap32 (wrap32 (y0 - 1) - y1 + 2 * wrap32 (x0 + 1))"
    by simp
  also have "\<dots> = wrap32 (wrap32 (y0 - 1) - y1 + 2 * (x0 + 1))" by (rule wrap32_add_twice)
  also have "\<dots> = wrap32 (wrap32 (y0 - 1) + (2 * (x0 + 1) - y1))" by (simp add: algebra_simps)
  also have "\<dots> = wrap32 (y0 - 1 + (2 * (x0 + 1) - y1))" by (rule wrap32_add_left)
  also have "\<dots> = wrap32 (y0 - y1 + 2 * x0 + 1)" by (simp add: algebra_simps)
  also have "\<dots> = wrap32 (wrap32 (y0 - y1 + 2 * x0) + 1)" by (rule wrap32_add_left[symmetric])
  finally show ?thesis .
qed

lemma bresenham_loop_cycle:
  assumes "bresenham_loop x1 y1 w h dx dy sx sy x0 y0 err acc = Some res"
  shows "\<not> (x1 = 1073741824 \<and> int32 y1 \<and> dx = 1073741824 \<and> dy = 0 \<and> sx = 1 \<and> sy = - 1
           \<and> int32 x0 \<and> int32 y0
           \<and> (err = 1073741824 \<and> wrap32 (y0 - y1 + 2 * x0) = 0
              \<or> err = - 2147483648 \<and> wrap32 (y0 - y1 + 2 * x0) = - 1
              \<or> err = - 1073741824 \<and> wrap32 (y0 - y1 + 2 * x0) = 0
              \<or> err = 0 \<and> wrap32 (y0 - y1 + 2 * x0) = - 1))"
proof (rule bresenham_loop.raw_induct
        [where P = "\<lambda>x1 y1 w h dx dy sx sy x0 y0 err acc res.
           \<not> (x1 = 1073741824 \<and> int32 y1 \<and> dx = 1073741824 \<and> dy = 0 \<and> sx = 1 \<and> sy = - 1
           \<and> int32 x0 \<and> int32 y0
           \<and> (err = 1073741824 \<and> wrap32 (y0 - y1 + 2 * x0) = 0
              \<or> err = - 2147483648 \<and> wrap32 (y0 - y1 + 2 * x0) = - 1
              \<or> err = - 1073741824 \<and> wrap32 (y0 - y1 + 2 * x0) = 0
              \<or> err = 0 \<and> wrap32 (y0 - y1 + 2 * x0) = - 1))",
         OF _ assms], goal_cases)
  case (1 f x1 y1 w h dx dy sx sy x0 y0 err acc res)
  show ?case
  proof
    assume inv: "x1 = 1073741824 \<and> int32 y1 \<and> dx = 1073741824 \<and> dy = 0 \<and> sx = 1 \<and> sy = - 1
           \<and> int32 x0 \<and> int32 y0
           \<and> (err = 1073741824 \<and> wrap32 (y0 - y1 + 2 * x0) = 0
              \<or> err = - 2147483648 \<and> wrap32 (y0 - y1 + 2 * x0) = - 1
              \<or> err = - 1073741824 \<and> wrap32 (y0 - y1 + 2 * x0) = 0
              \<or> err = 0 \<and> wrap32 (y0 - y1 + 2 * x0) = - 1)"
    then have c: "x1 = 1073741824" "int32 y1" "dx = 1073741824" "dy = 0" "sx = 1" "sy = - 1"
      and r: "int32 x0" "int32 y0" by simp_all
    have notend: "\<not> (x0 = x1 \<and> y0 = y1)"
    proof
      assume "x0 = x1 \<and> y0 = y1"
      then have "wrap32 (y0 - y1 + 2 * x0) = - 2147483648"
        by (simp add: c wrap32_def)
      with inv show False by auto
    qed
    note step = 1(2)[unfolded Let_def if_not_P[OF notend]]
    have m1: "int32 (- 1)" "int32 1" by (simp_all add: int32_def)
    have ry: "int32 (add32 y0 (- 1))" using r m1 by (simp add: add32_def)
    have rx: "int32 (add32 x0 1)" using r m1 by (simp add: add32_def)
    have k: "mul32 2 1073741824 = - 2147483648" "add32 1073741824 1073741824 = - 2147483648"
      "mul32 2 (- 2147483648) = 0" "add32 (- 2147483648) 0 = - 2147483648"
      "add32 (- 2147483648) 1073741824 = - 1073741824"
      "mul32 2 (- 1073741824) = - 2147483648" "add32 (- 1073741824) 1073741824 = 0"
      "mul32 2 0 = 0" "add32 0 0 = 0" "add32 0 1073741824 = 1073741824"
      by (simp_all add: mul32_def add32_def int32_def wrap32_def)
    have w: "wrap32 (0 + (- 1)) = - 1" "wrap32 (- 1 + 1) = 0"
      by (simp_all add: wrap32_def)
    from inv consider
        (A) "err = 1073741824" "wrap32 (y0 - y1 + 2 * x0) = 0"
      | (B) "err = - 2147483648" "wrap32 (y0 - y1 + 2 * x0) = - 1"
      | (C) "err = - 1073741824" "wrap32 (y0 - y1 + 2 * x0) = 0"
      | (D) "err = 0" "wrap32 (y0 - y1 + 2 * x0) = - 1"
      by blast
    then show False
    proof cases
      case A
      from step obtain vs where
        "f x1 y1 w h dx dy sx sy x0 (add32 y0 (- 1)) (- 2147483648) vs = Some res"
        by (simp add: c A k)
      moreover have "wrap32 (add32 y0 (- 1) - y1 + 2 * x0) = - 1"
        unfolding cycle_step_y[OF r(2)] A(2) by (rule w)
      ultimately show False
        using 1(1) c r ry by blast
    next
      case B
      from step obtain vs where
        "f x1 y1 w h dx dy sx sy (add32 x0 1) (add32 y0 (- 1)) (- 1073741824) vs = Some res"
        by (simp add: c B k)
      moreover have "wrap32 (add32 y0 (- 1) - y1 + 2 * add32 x0 1) = 0"
        unfolding cycle_step_xy[OF r(2,1)] B(2) by (rule w)
      ultimately show False
        using 1(1) c rx ry by blast
    next
      case C
      from step obtain vs where
        "f x1 y1 w h dx dy sx sy x0 (add32 y0 (- 1)) 0 vs = Some res"
        by (simp add: c C k)
      moreover have "wrap32 (add32 y0 (- 1) - y1 + 2 * x0) = - 1"
        unfolding cycle_step_y[OF r(2)] C(2) by (rule w)
      ultimately show False
        using 1(1) c r ry by blast
    next
      case D
      from step obtain vs where
        "f x1 y1 w h dx dy sx sy (add32 x0 1) (add32 y0 (- 1)) 1073741824 vs = Some res"
        by (simp add: c D k)
      moreover have "wrap32 (add32 y0 (- 1) - y1 + 2 * add32 x0 1) = 0"
        unfolding cycle_step_xy[OF r(2,1)] D(2) by (rule w)
      ultimately show False
        using 1(1) c rx ry by blast
    qed
  qed
qed

lemma bresenhamLine_overflow:
  assumes "int32 y"
  shows "bresenhamLine 0 y 1073741824 y w h = None"
proof (cases "bresenhamLine 0 y 1073741824 y w h")
  case (Some res)
  have s: "sub32 y y = 0" using assms by (simp add: sub32_def wrap32_def)
  have "bresenhamLine 0 y 1073741824 y w h
      = bresenham_loop 1073741824 y w h 1073741824 0 1 (- 1) 0 y 1073741824 []"
    by (simp add: bresenhamLine_def Let_def s sub32_def abs32_def neg32_def add32_def
        int32_def wrap32_def)
  with Some bresenham_loop_cycle[of 1073741824 y w h 1073741824 0 1 "- 1" 0 y 1073741824 "[]" res]
  show ?thesis using assms by (simp add: int32_def wrap32_def)
qed simp

subsection \<open>The loop of generateLines\<close>

text \<open>
  For a positive step the loop is unrolled by induction on the number of iterations; the
  angle stays below \<open>720\<close> unless the first addition already leaves the loop, so nothing
  wraps around. For the step 0 the angle stays 0 and the loop is never left. For a negative
  step the angle falls until the addition wraps around past the smallest \<^verbatim>\<open>int\<close>; when the
  step is at least \<open>360 - 2^31\<close>, the wrapped angle is at least 360 and the loop is left.
\<close>

lemma add32_zero: "add32 a 0 = a"
  by (simp add: add32_def wrap32_id)

lemma add32_positive_step:
  assumes "0 < angleStep" "0 \<le> angle" "angle < 360" "angle = 0 \<or> angleStep \<le> angle"
  shows "add32 angle angleStep = angle + angleStep"
proof (cases "int32 angle \<and> int32 angleStep")
  case True
  then have "int32 (angle + angleStep)" using assms by (auto simp: int32_def)
  then show ?thesis by (rule add32_id)
next
  case False
  show ?thesis by (simp only: add32_def if_not_P[OF False])
qed

lemma wrap32_below:
  assumes "- 4294967296 \<le> n" "n < - 2147483648"
  shows "wrap32 n = n + 4294967296"
proof -
  have "(n + 2147483648) mod 4294967296 = (n + 2147483648 + 4294967296) mod 4294967296"
    by (rule mod_add_self2[symmetric])
  also have "\<dots> = n + 2147483648 + 4294967296"
    using assms by (intro mod_pos_pos_trivial) simp_all
  finally show ?thesis by (simp add: wrap32_def)
qed

lemma generateLines_loop_zero_step:
  assumes "generateLines_loop x0 y0 radius angleStep angle lines = Some res"
  shows "angleStep \<noteq> 0 \<or> 360 \<le> angle"
proof (rule generateLines_loop.raw_induct
        [where P = "\<lambda>x0 y0 radius angleStep angle lines res. angleStep \<noteq> 0 \<or> 360 \<le> angle",
         OF _ assms], goal_cases)
  case (1 f x0 y0 radius angleStep angle lines res)
  show ?case
  proof (cases "angle < 360")
    case True
    with 1(2) obtain ls where "f x0 y0 radius angleStep (add32 angle angleStep) ls = Some res"
      by (auto simp: Let_def)
    from 1(1)[OF this] True show ?thesis by (auto simp: add32_zero)
  next
    case False
    then show ?thesis by simp
  qed
qed

lemma generateLines_zero_step: "generateLines x0 y0 radius 0 = None"
proof (cases "generateLines x0 y0 radius 0")
  case (Some res)
  from generateLines_loop_zero_step[OF this[unfolded generateLines_def]] show ?thesis by simp
qed simp

lemma radial_lines_Suc:
  "map (\<lambda>k. radial_line x0 y0 radius (angle + int k * angleStep)) [0..<Suc n]
     = radial_line x0 y0 radius angle
       # map (\<lambda>k. radial_line x0 y0 radius ((angle + angleStep) + int k * angleStep)) [0..<n]"
proof -
  have "[0..<Suc n] = 0 # map Suc [0..<n]"
    by (simp add: upt_conv_Cons map_Suc_upt del: upt_Suc)
  then show ?thesis
    by (simp add: comp_def algebra_simps del: upt_Suc)
qed

lemma generateLines_loop_unroll:
  assumes "0 < angleStep"
  shows "0 \<le> angle \<Longrightarrow> angle = 0 \<or> angleStep \<le> angle \<Longrightarrow>
         360 \<le> angle + int n * angleStep \<Longrightarrow>
         (0 < n \<Longrightarrow> angle + (int n - 1) * angleStep < 360) \<Longrightarrow>
         generateLines_loop x0 y0 radius angleStep angle lines
           = Some (lines @ map (\<lambda>k. radial_line x0 y0 radius (angle + int k * angleStep)) [0..<n])"
proof (induction n arbitrary: angle lines)
  case 0
  then show ?case by (subst generateLines_loop.simps) simp
next
  case (Suc n)
  have "0 \<le> int n * angleStep" using assms by simp
  with Suc.prems(4) have lt: "angle < 360" by simp
  have s: "add32 angle angleStep = angle + angleStep"
    using assms Suc.prems(1) lt Suc.prems(2) by (rule add32_positive_step)
  have p: "0 \<le> angle + angleStep" "angle + angleStep = 0 \<or> angleStep \<le> angle + angleStep"
    using assms Suc.prems(1) by simp_all
  have a: "360 \<le> (angle + angleStep) + int n * angleStep"
    using Suc.prems(3) by (simp add: algebra_simps)
  have b: "0 < n \<Longrightarrow> (angle + angleStep) + (int n - 1) * angleStep < 360"
    using Suc.prems(4) by (simp add: algebra_simps)
  show ?case
    apply (subst generateLines_loop.simps)
    apply (subst radial_lines_Suc)
    using lt Suc.IH[OF p a b]
    apply (simp add: Let_def radial_line_def s)
    done
qed

lemma radial_count:
  fixes angleStep q :: int
  assumes "0 < angleStep" and q: "q = (359 + angleStep) div angleStep"
  shows "0 < q" "360 \<le> q * angleStep" "(q - 1) * angleStep < 360"
proof -
  show "0 < q"
    unfolding q using assms(1) pos_imp_zdiv_pos_iff[of angleStep "359 + angleStep"] by linarith
  have "q * angleStep + (359 + angleStep) mod angleStep = 359 + angleStep"
    unfolding q by (rule div_mult_mod_eq)
  moreover have "0 \<le> (359 + angleStep) mod angleStep"
    using assms(1) by (rule pos_mod_sign)
  moreover have "(359 + angleStep) mod angleStep < angleStep"
    using assms(1) by (rule pos_mod_bound)
  ultimately have "q * angleStep \<le> 359 + angleStep" "359 + angleStep < q * angleStep + angleStep"
    by linarith+
  moreover have "(q - 1) * angleStep = q * angleStep - angleStep"
    by (simp add: algebra_simps)
  ultimately show "360 \<le> q * angleStep" "(q - 1) * angleStep < 360"
    by linarith+
qed

lemma generateLines_positive_step:
  assumes "0 < angleStep"
  shows "generateLines x0 y0 radius angleStep
           = Some (map (\<lambda>k. radial_line x0 y0 radius (int k * angleStep))
                       [0..<nat ((359 + angleStep) div angleStep)])"
proof -
  define q where "q = (359 + angleStep) div angleStep"
  note c = radial_count[OF assms q_def]
  from c(1) have n: "int (nat q) = q" by simp
  have "generateLines_loop x0 y0 radius angleStep 0 []
      = Some ([] @ map (\<lambda>k. radial_line x0 y0 radius (0 + int k * angleStep)) [0..<nat q])"
    by (rule generateLines_loop_unroll[OF assms]) (use c in \<open>simp_all add: n\<close>)
  then show ?thesis by (simp add: generateLines_def q_def)
qed

lemma generateLines_loop_unroll_negative:
  assumes "angleStep < 0" "360 - 2147483648 \<le> angleStep"
  shows "angle \<le> 0 \<Longrightarrow> - 2147483648 \<le> angle + int n * angleStep \<Longrightarrow>
         angle + (int n + 1) * angleStep < - 2147483648 \<Longrightarrow>
         generateLines_loop x0 y0 radius angleStep angle lines
           = Some (lines @ map (\<lambda>k. radial_line x0 y0 radius (angle + int k * angleStep))
                               [0..<Suc n])"
proof (induction n arbitrary: angle lines)
  case 0
  then have r: "int32 angle" "int32 angleStep" using assms by (simp_all add: int32_def)
  have "wrap32 (angle + angleStep) = angle + angleStep + 4294967296"
    using 0 assms by (intro wrap32_below) simp_all
  with r have s: "add32 angle angleStep = angle + angleStep + 4294967296"
    by (simp add: add32_def)
  have exit: "\<not> angle + angleStep + 4294967296 < 360" using 0 assms by simp
  have lt: "angle < 360" using 0 by simp
  show ?case
    apply (subst generateLines_loop.simps)
    apply (simp add: Let_def lt s radial_line_def)
    apply (subst generateLines_loop.simps)
    apply (simp add: exit)
    done
next
  case (Suc n)
  have np: "int n * angleStep \<le> 0" using assms(1) by (simp add: mult_nonneg_nonpos)
  have lt: "angle < 360" using Suc.prems(1) by simp
  have lo: "- 2147483648 \<le> angle + angleStep"
    using Suc.prems(2) np by (simp add: algebra_simps)
  then have "int32 (angle + angleStep)" using Suc.prems(1) assms(1) by (simp add: int32_def)
  then have s: "add32 angle angleStep = angle + angleStep" by (rule add32_id)
  have p: "angle + angleStep \<le> 0" using Suc.prems(1) assms(1) by simp
  have a: "- 2147483648 \<le> (angle + angleStep) + int n * angleStep"
    using Suc.prems(2) by (simp add: algebra_simps)
  have b: "(angle + angleStep) + (int n + 1) * angleStep < - 2147483648"
    using Suc.prems(3) by (simp add: algebra_simps)
  show ?case
    apply (subst generateLines_loop.simps)
    apply (subst radial_lines_Suc)
    using lt Suc.IH[OF p a b]
    apply (simp add: Let_def radial_line_def s)
    done
qed

lemma generateLines_negative_step:
  assumes "angleStep < 0" "360 - 2147483648 \<le> angleStep"
  shows "generateLines x0 y0 radius angleStep
           = Some (map (\<lambda>k. radial_line x0 y0 radius (int k * angleStep))
                       [0..<nat (2147483648 div (- angleStep)) + 1])"
proof -
  define q where "q = 2147483648 div (- angleStep)"
  have pos: "0 < - angleStep" using assms(1) by simp
  have q0: "0 \<le> q" unfolding q_def using pos by (simp add: pos_imp_zdiv_nonneg_iff)
  have "q * (- angleStep) + 2147483648 mod (- angleStep) = 2147483648"
    unfolding q_def by (rule div_mult_mod_eq)
  moreover have "0 \<le> 2147483648 mod (- angleStep)"
    using pos by (rule pos_mod_sign)
  moreover have "2147483648 mod (- angleStep) < - angleStep"
    using pos by (rule pos_mod_bound)
  ultimately have le: "q * (- angleStep) \<le> 2147483648"
    and gt: "2147483648 < q * (- angleStep) + (- angleStep)"
    by linarith+
  have m: "q * (- angleStep) = - (q * angleStep)" "(q + 1) * angleStep = q * angleStep + angleStep"
    by (simp_all add: algebra_simps)
  from q0 have n: "int (nat q) = q" by simp
  have "generateLines_loop x0 y0 radius angleStep 0 []
      = Some ([] @ map (\<lambda>k. radial_line x0 y0 radius (0 + int k * angleStep)) [0..<Suc (nat q)])"
    by (rule generateLines_loop_unroll_negative[OF assms]) (use le gt m q0 in \<open>simp_all\<close>)
  then show ?thesis by (simp add: generateLines_def q_def)
qed

subsection \<open>The shape of the result of xiaolinWuLine\<close>

lemma int_of_float_of_int [simp]: "int_of_float (real_of_int n) = n"
  by (simp add: int_of_float_def)

lemma interior_pairs_0 [simp]: "interior_pairs steep w h r g b x intery gradient 0 = []"
  by (simp add: interior_pairs_def)

lemma interior_pairs_Suc:
  "interior_pairs steep w h r g b x intery gradient (Suc n) =
     coverage_pair steep w h r g b x intery 1
     @ interior_pairs steep w h r g b (x + 1) (intery + gradient) gradient n"
proof -
  have "[0..<Suc n] = 0 # map Suc [0..<n]"
    by (simp add: upt_conv_Cons map_Suc_upt del: upt_Suc)
  then show ?thesis
    by (simp add: interior_pairs_def comp_def algebra_simps del: upt_Suc)
qed

lemma wu_loop_shallow_pairs:
  "wu_loop_shallow x xpxl2 intery gradient w h r g b vertices =
     vertices @ interior_pairs False w h r g b x intery gradient (nat (xpxl2 - x))"
proof (induction x xpxl2 intery gradient w h r g b vertices rule: wu_loop_shallow.induct)
  case (1 x xpxl2 intery gradient width height r g b vertices)
  show ?case
  proof (cases "x < xpxl2")
    case True
    then have n: "nat (xpxl2 - x) = Suc (nat (xpxl2 - (x + 1)))" by simp
    show ?thesis
      apply (subst wu_loop_shallow.simps)
      apply (subst n)
      apply (subst interior_pairs_Suc)
      using True 1[OF True refl refl refl refl refl refl refl refl]
      apply (simp add: Let_def pushVertex_def coverage_pair_def normalize_def del: wu_loop_shallow.simps)
      done
  next
    case False
    then show ?thesis by simp
  qed
qed


lemma wu_loop_steep_pairs:
  "wu_loop_steep x xpxl2 intery gradient w h r g b vertices =
     vertices @ interior_pairs True w h r g b x intery gradient (nat (xpxl2 - x))"
proof (induction x xpxl2 intery gradient w h r g b vertices rule: wu_loop_steep.induct)
  case (1 x xpxl2 intery gradient width height r g b vertices)
  show ?case
  proof (cases "x < xpxl2")
    case True
    then have n: "nat (xpxl2 - x) = Suc (nat (xpxl2 - (x + 1)))" by simp
    show ?thesis
      apply (subst wu_loop_steep.simps)
      apply (subst n)
      apply (subst interior_pairs_Suc)
      using True 1[OF True refl refl refl refl refl refl refl refl]
      apply (simp add: Let_def pushVertex_def coverage_pair_def normalize_def del: wu_loop_steep.simps)
      done
  next
    case False
    then show ?thesis by simp
  qed
qed

lemma xiaolinWuLine_shape:
  assumes "wu_orient x0 y0 x1 y1 = (steep, X0, Y0, X1, Y1)"
  shows "xiaolinWuLine x0 y0 x1 y1 w h r g b =
     coverage_pair steep w h r g b \<lfloor>X0\<rfloor>
        (Y0 + wu_gradient X0 Y0 X1 Y1 * (real_of_int \<lfloor>X0\<rfloor> - X0)) (1 - (X0 - real_of_int \<lfloor>X0\<rfloor>))
     @ coverage_pair steep w h r g b \<lceil>X1\<rceil>
        (Y1 + wu_gradient X0 Y0 X1 Y1 * (real_of_int \<lceil>X1\<rceil> - X1)) (1 - (X1 - real_of_int \<lceil>X1\<rceil>))
     @ interior_pairs steep w h r g b (\<lfloor>X0\<rfloor> + 1)
        (Y0 + wu_gradient X0 Y0 X1 Y1 * (real_of_int \<lfloor>X0\<rfloor> - X0) + wu_gradient X0 Y0 X1 Y1)
        (wu_gradient X0 Y0 X1 Y1) (nat (\<lceil>X1\<rceil> - (\<lfloor>X0\<rfloor> + 1)))"
proof (cases steep)
  case True
  then show ?thesis
    unfolding xiaolinWuLine_def assms Let_def prod.case wu_loop_steep_pairs
    by (simp add: pushVertex_def coverage_pair_def normalize_def wu_gradient_def
        del: wu_loop_steep.simps wu_loop_shallow.simps)
next
  case False
  then show ?thesis
    unfolding xiaolinWuLine_def assms Let_def prod.case wu_loop_shallow_pairs
    by (simp add: pushVertex_def coverage_pair_def normalize_def wu_gradient_def
        del: wu_loop_steep.simps wu_loop_shallow.simps)
qed

lemma wu_orient_sym: "wu_orient x1 y1 x0 y0 = wu_orient x0 y0 x1 y1"
  by (auto simp: wu_orient_def Let_def)


lemma length_coverage_pair [simp]: "length (coverage_pair steep w h r g b col y gap) = 2"
  by (simp add: coverage_pair_def)

lemma length_interior_pairs [simp]:
  "length (interior_pairs steep w h r g b x intery gradient n) = 2 * n"
  by (induction n arbitrary: x intery) (simp_all add: interior_pairs_Suc)

lemma coverage_pair_alpha_sum:
  "v_alpha (coverage_pair steep w h r g b col y gap ! 0)
     + v_alpha (coverage_pair steep w h r g b col y gap ! 1) = gap"
  by (simp add: coverage_pair_def rfpart_def algebra_simps)

lemma interior_pairs_nth:
  assumes "k < n"
  shows "interior_pairs steep w h r g b x intery gradient n ! (2 * k)
           = coverage_pair steep w h r g b (x + int k) (intery + real k * gradient) 1 ! 0"
    and "interior_pairs steep w h r g b x intery gradient n ! (2 * k + 1)
           = coverage_pair steep w h r g b (x + int k) (intery + real k * gradient) 1 ! 1"
  using assms
proof (induction n arbitrary: k x intery)
  case 0
  { case 1 then show ?case by simp }
  { case 2 then show ?case by simp }
next
  case (Suc n)
  { case 1
    show ?case
    proof (cases k)
      case 0
      then show ?thesis by (simp add: interior_pairs_Suc nth_append)
    next
      case (Suc j)
      with 1 have "j < n" by simp
      from Suc.IH(1)[OF this, of "x + 1" "intery + gradient"] Suc
      show ?thesis by (simp add: interior_pairs_Suc nth_append algebra_simps)
    qed }
  { case 2
    show ?case
    proof (cases k)
      case 0
      then show ?thesis by (simp add: interior_pairs_Suc nth_append)
    next
      case (Suc j)
      with 2 have "j < n" by simp
      from Suc.IH(2)[OF this, of "x + 1" "intery + gradient"] Suc
      show ?thesis by (simp add: interior_pairs_Suc nth_append algebra_simps)
    qed }
qed

lemma interior_pairs_alpha_sum:
  assumes "k < n"
  shows "v_alpha (interior_pairs steep w h r g b x intery gradient n ! (2 * k))
       + v_alpha (interior_pairs steep w h r g b x intery gradient n ! (2 * k + 1)) = 1"
  unfolding interior_pairs_nth[OF assms] by (rule coverage_pair_alpha_sum)

lemma coverage_pair_normalized:
  assumes "v \<in> set (coverage_pair steep w h r g b col y gap)"
  shows "\<exists>px py. v_x v = normalize (real_of_int px) w \<and> v_y v = normalize (real_of_int py) h"
  using assms by (auto simp: coverage_pair_def simp del: of_int_add split: if_splits)

lemma interior_pairs_normalized:
  assumes "v \<in> set (interior_pairs steep w h r g b x intery gradient n)"
  shows "\<exists>px py. v_x v = normalize (real_of_int px) w \<and> v_y v = normalize (real_of_int py) h"
  using assms unfolding interior_pairs_def by (auto dest: coverage_pair_normalized)


text \<open>
  The two endpoint pairs. The gap of the first endpoint is \<open>1 - fpart X0\<close>, a value between 0
  (exclusive) and 1; the gap of the second endpoint is \<open>1 + (\<lceil>X1\<rceil> - X1)\<close>, a value of at
  least 1 and below 2.
\<close>

lemma xiaolinWuLine_endpoint_pairs:
  assumes "wu_orient x0 y0 x1 y1 = (steep, X0, Y0, X1, Y1)"
  shows "take 2 (xiaolinWuLine x0 y0 x1 y1 w h r g b)
           = coverage_pair steep w h r g b \<lfloor>X0\<rfloor>
               (Y0 + wu_gradient X0 Y0 X1 Y1 * (real_of_int \<lfloor>X0\<rfloor> - X0)) (1 - fpart X0)"
    and "take 2 (drop 2 (xiaolinWuLine x0 y0 x1 y1 w h r g b))
           = coverage_pair steep w h r g b \<lceil>X1\<rceil>
               (Y1 + wu_gradient X0 Y0 X1 Y1 * (real_of_int \<lceil>X1\<rceil> - X1))
               (1 + (real_of_int \<lceil>X1\<rceil> - X1))"
    and "0 < 1 - fpart X0" and "1 - fpart X0 \<le> 1"
    and "1 \<le> 1 + (real_of_int \<lceil>X1\<rceil> - X1)" and "1 + (real_of_int \<lceil>X1\<rceil> - X1) < 2"
proof -
  show "take 2 (xiaolinWuLine x0 y0 x1 y1 w h r g b)
           = coverage_pair steep w h r g b \<lfloor>X0\<rfloor>
               (Y0 + wu_gradient X0 Y0 X1 Y1 * (real_of_int \<lfloor>X0\<rfloor> - X0)) (1 - fpart X0)"
    unfolding xiaolinWuLine_shape[OF assms] by (simp add: fpart_def)
  have g: "1 - (X1 - real_of_int \<lceil>X1\<rceil>) = 1 + (real_of_int \<lceil>X1\<rceil> - X1)" by simp
  show "take 2 (drop 2 (xiaolinWuLine x0 y0 x1 y1 w h r g b))
           = coverage_pair steep w h r g b \<lceil>X1\<rceil>
               (Y1 + wu_gradient X0 Y0 X1 Y1 * (real_of_int \<lceil>X1\<rceil> - X1))
               (1 + (real_of_int \<lceil>X1\<rceil> - X1))"
    unfolding xiaolinWuLine_shape[OF assms] g by simp
  show "0 < 1 - fpart X0" "1 - fpart X0 \<le> 1"
    unfolding fpart_def by linarith+
  show "1 \<le> 1 + (real_of_int \<lceil>X1\<rceil> - X1)" "1 + (real_of_int \<lceil>X1\<rceil> - X1) < 2"
    by linarith+
qed

subsection \<open>The constant 3.14159 and \<open>\<pi>\<close>\<close>

text \<open>
  The Taylor polynomial of the cosine of degree 12 (fourteen coefficients) with the Lagrange remainder decides the
  sign of the cosine at three rationals close to \<open>\<pi> / 2\<close>; as the cosine decreases on the
  interval from 0 to \<open>\<pi>\<close>, this gives \<open>3.141592 < \<pi> < 3.141593\<close>.
\<close>

lemma cos_taylor_14:
  fixes x :: real
  shows "\<bar>cos x - (\<Sum>m<14. cos_coeff m * x ^ m)\<bar> \<le> \<bar>x\<bar> ^ 14 / fact 14"
proof -
  from Maclaurin_cos_expansion[of x 14]
  obtain t where t: "cos x = (\<Sum>m<14. cos_coeff m * x ^ m)
      + (cos (t + 1/2 * real 14 * pi) / fact 14) * x ^ 14"
    by blast
  have "\<bar>cos x - (\<Sum>m<14. cos_coeff m * x ^ m)\<bar>
      = \<bar>cos (t + 1/2 * real 14 * pi)\<bar> * (\<bar>x\<bar> ^ 14 / fact 14)"
    unfolding t by (simp add: abs_mult power_abs)
  also have "\<dots> \<le> 1 * (\<bar>x\<bar> ^ 14 / fact 14)"
    by (intro mult_right_mono) simp_all
  finally show ?thesis by simp
qed

lemma cos_poly_14:
  fixes x :: real
  shows "(\<Sum>m<14. cos_coeff m * x ^ m)
     = 1 - x^2 / 2 + x^4 / 24 - x^6 / 720 + x^8 / 40320 - x^10 / 3628800 + x^12 / 479001600"
proof -
  have s: "{..<14::nat} = {0, 1, 2, 3, 4, 5, 6, 7, 8, 9, 10, 11, 12, 13}"
    by (rule set_eqI) (simp, arith)
  have c: "cos_coeff 0 = 1" "cos_coeff (Suc 0) = 0" "cos_coeff 2 = - 1 / 2" "cos_coeff 3 = 0"
    "cos_coeff 4 = 1 / 24" "cos_coeff 5 = 0" "cos_coeff 6 = - 1 / 720" "cos_coeff 7 = 0"
    "cos_coeff 8 = 1 / 40320" "cos_coeff 9 = 0" "cos_coeff 10 = - 1 / 3628800" "cos_coeff 11 = 0"
    "cos_coeff 12 = 1 / 479001600" "cos_coeff 13 = 0"
    by (simp_all add: cos_coeff_def fact_numeral)
  show ?thesis unfolding s by (simp add: c)
qed

lemma cos_sign_from_poly:
  fixes x :: real
  shows "0 < (\<Sum>m<14. cos_coeff m * x ^ m) - \<bar>x\<bar> ^ 14 / fact 14 \<Longrightarrow> 0 < cos x"
    and "(\<Sum>m<14. cos_coeff m * x ^ m) + \<bar>x\<bar> ^ 14 / fact 14 < 0 \<Longrightarrow> cos x < 0"
  using cos_taylor_14[of x] by linarith+

lemma cos_pos_1570796: "0 < cos (1570796 / 1000000 :: real)"
  by (rule cos_sign_from_poly(1)) (simp only: cos_poly_14, simp add: fact_numeral power_divide)

lemma cos_neg_15707965: "cos (3141593 / 2000000 :: real) < 0"
  by (rule cos_sign_from_poly(2)) (simp only: cos_poly_14, simp add: fact_numeral power_divide)

lemma pi_lower: "3141592 / 1000000 < pi"
proof (rule ccontr)
  assume "\<not> 3141592 / 1000000 < pi"
  then have le: "pi / 2 \<le> 1570796 / 1000000" by simp
  have "(1570796 / 1000000 :: real) \<le> pi" using pi_ge_two by linarith
  from cos_monotone_0_pi_le[OF _ le this] have "cos (1570796 / 1000000 :: real) \<le> 0"
    by simp
  with cos_pos_1570796 show False by linarith
qed

lemma pi_upper: "pi < 3141593 / 1000000"
proof (rule ccontr)
  assume "\<not> pi < 3141593 / 1000000"
  then have "3141593 / 2000000 \<le> pi / 2" by simp
  moreover have "pi / 2 \<le> pi" by simp
  ultimately have "cos (pi / 2) \<le> cos (3141593 / 2000000 :: real)"
    by (intro cos_monotone_0_pi_le) simp_all
  with cos_neg_15707965 show False by simp
qed

lemma sin_lower:
  fixes x :: real
  shows "x - x\<^sup>2 / 2 \<le> sin x"
proof -
  have "(\<Sum>m<2. sin_coeff m * x ^ m) = x"
    by (simp add: sin_coeff_def eval_nat_numeral)
  with Maclaurin_sin_bound[of x 2] have "\<bar>sin x - x\<bar> \<le> inverse (fact 2) * \<bar>x\<bar> ^ 2"
    by simp
  then have "\<bar>sin x - x\<bar> \<le> x\<^sup>2 / 2"
    by (simp add: fact_numeral)
  then show ?thesis by linarith
qed

subsection \<open>Distance of a radial segment from the exact point\<close>

lemma cos_lipschitz: "\<bar>cos u - cos v\<bar> \<le> \<bar>u - v\<bar>" for u v :: real
proof -
  have "\<bar>cos u - cos v\<bar> = 2 * \<bar>sin ((u + v) / 2)\<bar> * \<bar>sin ((v - u) / 2)\<bar>"
    unfolding cos_diff_cos by (simp add: abs_mult)
  also have "\<dots> \<le> 2 * 1 * \<bar>(v - u) / 2\<bar>"
    by (intro mult_mono abs_sin_x_le_abs_x) simp_all
  finally show ?thesis by simp
qed

lemma sin_lipschitz: "\<bar>sin u - sin v\<bar> \<le> \<bar>u - v\<bar>" for u v :: real
proof -
  have "\<bar>sin u - sin v\<bar> = 2 * \<bar>sin ((u - v) / 2)\<bar> * \<bar>cos ((u + v) / 2)\<bar>"
    unfolding sin_diff_sin by (simp add: abs_mult)
  also have "\<dots> \<le> 2 * \<bar>(u - v) / 2\<bar> * 1"
    by (intro mult_mono abs_sin_x_le_abs_x) simp_all
  finally show ?thesis by simp
qed

lemma radians_close:
  fixes angle :: int
  assumes "0 \<le> angle" "angle < 360"
  shows "\<bar>real_of_int angle * 3.14159 / 180 - real_of_int angle * pi / 180\<bar> \<le> 6 / 1000000"
proof -
  define a d where "a = real_of_int angle / 180" and "d = pi - 314159 / 100000"
  have eq: "real_of_int angle * 3.14159 / 180 - real_of_int angle * pi / 180 = - (a * d)"
    by (simp add: a_def d_def algebra_simps)
  have a: "0 \<le> a" "a \<le> 2"
    using assms by (simp_all add: a_def)
  have d: "0 \<le> d" "d \<le> 3 / 1000000"
    using pi_lower pi_upper by (simp_all add: d_def)
  have "a * d \<le> 2 * (3 / 1000000)"
    using a d by (intro mult_mono) simp_all
  moreover have "0 \<le> a * d"
    using a d by simp
  ultimately show ?thesis unfolding eq by simp
qed

lemma radial_line_close:
  assumes "0 \<le> radius" "0 \<le> angle" "angle < 360"
  shows "l_x0 (radial_line x0 y0 radius angle) = real_of_int x0"
    and "l_y0 (radial_line x0 y0 radius angle) = real_of_int y0"
    and "\<bar>l_x1 (radial_line x0 y0 radius angle)
           - (real_of_int x0 + real_of_int radius * cos (real_of_int angle * pi / 180))\<bar>
         \<le> real_of_int radius * (6 / 1000000)"
    and "\<bar>l_y1 (radial_line x0 y0 radius angle)
           - (real_of_int y0 + real_of_int radius * sin (real_of_int angle * pi / 180))\<bar>
         \<le> real_of_int radius * (6 / 1000000)"
proof -
  let ?u = "real_of_int angle * 3.14159 / 180" and ?v = "real_of_int angle * pi / 180"
  note close = radians_close[OF assms(2,3)]
  show "l_x0 (radial_line x0 y0 radius angle) = real_of_int x0"
    "l_y0 (radial_line x0 y0 radius angle) = real_of_int y0"
    by (simp_all add: radial_line_def)
  have "\<bar>l_x1 (radial_line x0 y0 radius angle) - (real_of_int x0 + real_of_int radius * cos ?v)\<bar>
          = real_of_int radius * \<bar>cos ?u - cos ?v\<bar>"
    using assms(1) by (simp add: radial_line_def abs_mult flip: right_diff_distrib)
  also have "\<dots> \<le> real_of_int radius * (6 / 1000000)"
    using cos_lipschitz[of ?u ?v] close assms(1) by (intro mult_left_mono) simp_all
  finally show "\<bar>l_x1 (radial_line x0 y0 radius angle)
           - (real_of_int x0 + real_of_int radius * cos ?v)\<bar> \<le> real_of_int radius * (6 / 1000000)" .
  have "\<bar>l_y1 (radial_line x0 y0 radius angle) - (real_of_int y0 + real_of_int radius * sin ?v)\<bar>
          = real_of_int radius * \<bar>sin ?u - sin ?v\<bar>"
    using assms(1) by (simp add: radial_line_def abs_mult flip: right_diff_distrib)
  also have "\<dots> \<le> real_of_int radius * (6 / 1000000)"
    using sin_lipschitz[of ?u ?v] close assms(1) by (intro mult_left_mono) simp_all
  finally show "\<bar>l_y1 (radial_line x0 y0 radius angle)
           - (real_of_int y0 + real_of_int radius * sin ?v)\<bar> \<le> real_of_int radius * (6 / 1000000)" .
qed


text \<open>
  The bound cannot be improved by an order of magnitude: for the radius 10 the segment of
  the angle 270 ends more than \<open>1 / 100000\<close> away from the vertical axis.
\<close>

lemma radial_270_deviation: "1 / 100000 < \<bar>l_x1 (radial_line 0 0 10 270) - 0\<bar>"
proof -
  define d where "d = 3 / 2 * (pi - 314159 / 100000)"
  have d: "3 / 1000000 < d" "d < 1"
    using pi_lower pi_upper by (simp_all add: d_def)
  have "real_of_int 270 * 3.14159 / 180 = 3 / 2 * pi - d"
    by (simp add: d_def algebra_simps)
  then have "cos (real_of_int 270 * 3.14159 / 180) = - sin d"
    by (simp only: cos_diff cos_3over2_pi sin_3over2_pi)
  then have x: "l_x1 (radial_line 0 0 10 270) = - (10 * sin d)"
    by (simp add: radial_line_def)
  have "d\<^sup>2 \<le> d * 1"
    unfolding power2_eq_square using d by (intro mult_left_mono) simp_all
  with sin_lower[of d] have "d / 2 \<le> sin d" by simp
  with d(1) have "15 / 10000000 < sin d" by simp
  then show ?thesis unfolding x by simp
qed

section \<open>Claims\<close>

text \<open>
  C4 (as stated, refuted). The endpoints \<open>(0, 0)\<close> and \<open>(2^30, 0)\<close> are values of \<^verbatim>\<open>int\<close>. In the
  first iteration \<open>e2 = 2 * err\<close> wraps around to \<open>- 2^31\<close>; the loop steps to the pixel
  \<open>(0, -1)\<close> with the error term \<open>- 2^31\<close>, leaves the row and never meets the end pixel, so
  the call returns no vector.
\<close>

theorem bresenhamLine_first_last_counterexample:
  "bresenhamLine 0 0 1073741824 0 100 100
     = bresenham_loop 1073741824 0 100 100 1073741824 0 1 (- 1) 0 (- 1) (- 2147483648)
         [- 99 / 100, - 99 / 100]
   \<and> bresenhamLine 0 0 1073741824 0 100 100 = None"
proof -
  have k: "mul32 2 1073741824 = - 2147483648" "add32 1073741824 1073741824 = - 2147483648"
    "add32 0 (- 1) = - 1"
    by (simp_all add: mul32_def add32_def int32_def wrap32_def)
  have "bresenhamLine 0 0 1073741824 0 100 100
      = bresenham_loop 1073741824 0 100 100 1073741824 0 1 (- 1) 0 0 1073741824 []"
    by (simp add: bresenhamLine_def Let_def sub32_def abs32_def neg32_def add32_def
        int32_def wrap32_def)
  also have "\<dots> = bresenham_loop 1073741824 0 100 100 1073741824 0 1 (- 1) 0 (- 1) (- 2147483648)
         [- 99 / 100, - 99 / 100]"
    by (subst bresenham_loop.simps) (simp add: Let_def k)
  finally have "bresenhamLine 0 0 1073741824 0 100 100
     = bresenham_loop 1073741824 0 100 100 1073741824 0 1 (- 1) 0 (- 1) (- 2147483648)
         [- 99 / 100, - 99 / 100]" .
  moreover have "bresenhamLine 0 0 1073741824 0 100 100 = None"
    by (rule bresenhamLine_overflow) (simp add: int32_def)
  ultimately show ?thesis by (rule conjI)
qed

text \<open>
  C4 (amended). For endpoints of type \<^verbatim>\<open>int\<close> whose coordinates differ by at most
  \<open>715827882\<close> in \<open>x\<close> and in \<open>y\<close>, and positive width and height, \<open>bresenhamLine\<close> returns a
  non-empty vector whose first sample is the normalized position of \<open>(x0, y0)\<close> and whose
  last sample is the normalized position of \<open>(x1, y1)\<close>.
\<close>

theorem bresenhamLine_first_last:
  assumes "int32 x0" "int32 y0" "int32 x1" "int32 y1"
    and "\<bar>x1 - x0\<bar> \<le> 715827882" "\<bar>y1 - y0\<bar> \<le> 715827882"
    and "0 < width" "0 < height"
  shows "\<exists>vertices. bresenhamLine x0 y0 x1 y1 width height = Some vertices
           \<and> vertices \<noteq> []
           \<and> take 2 vertices
               = [normalize (real_of_int x0) width, normalize (real_of_int y0) height]
           \<and> drop (length vertices - 2) vertices
               = [normalize (real_of_int x1) width, normalize (real_of_int y1) height]"
proof -
  from bresenhamLine_path[OF assms(1-6), of width height]
  obtain ps where ps: "bresenhamLine x0 y0 x1 y1 width height = Some (pixel_samples width height ps)"
    "length ps = nat (max \<bar>x1 - x0\<bar> \<bar>y1 - y0\<bar>) + 1" "hd ps = (x0, y0)" "last ps = (x1, y1)"
    by blast
  from ps(2) have ne: "ps \<noteq> []" by auto
  then have "pixel_samples width height ps \<noteq> []"
    using length_pixel_samples[of width height ps] by (cases ps) auto
  with ps(1) pixel_samples_take2[OF ne, of width height] pixel_samples_last2[OF ne, of width height]
  show ?thesis by (simp add: ps(3,4))
qed

theorem bresenhamLine_first_last_witness:
  "int32 0 \<and> int32 3 \<and> int32 1
   \<and> \<bar>3 - 0 :: int\<bar> \<le> 715827882 \<and> \<bar>1 - 0 :: int\<bar> \<le> 715827882
   \<and> (0::int) < 10 \<and>
   (\<exists>vertices. bresenhamLine 0 0 3 1 10 10 = Some vertices
           \<and> vertices \<noteq> []
           \<and> take 2 vertices = [normalize 0 10, normalize 0 10]
           \<and> drop (length vertices - 2) vertices = [normalize 3 10, normalize 1 10])"
proof -
  have h: "int32 0" "int32 3" "int32 1" "\<bar>3 - 0 :: int\<bar> \<le> 715827882"
    "\<bar>1 - 0 :: int\<bar> \<le> 715827882" "(0::int) < 10"
    by (simp_all add: int32_def)
  from bresenhamLine_first_last[OF h(1) h(1) h(2) h(3) h(4) h(5) h(6) h(6)] h
  show ?thesis by simp
qed

text \<open>
  C5 (as stated, refuted). For the endpoints \<open>(0, 1)\<close> and \<open>(2^30, 1)\<close>, which are values of
  \<^verbatim>\<open>int\<close>, the doubled error term wraps around and the loop never meets the end pixel: the
  call does not return \<open>2^30 + 1\<close> samples, it returns no vector at all.
\<close>

theorem bresenhamLine_sample_count_counterexample:
  "bresenhamLine 0 1 1073741824 1 100 100 = None"
  by (rule bresenhamLine_overflow) (simp add: int32_def)

text \<open>
  C5 (amended). For endpoints of type \<^verbatim>\<open>int\<close> whose coordinates differ by at most
  \<open>715827882\<close> in \<open>x\<close> and in \<open>y\<close> (and positive width and height) \<open>bresenhamLine\<close> emits
  exactly \<open>max \<bar>x1 - x0\<bar> \<bar>y1 - y0\<bar> + 1\<close> samples, that is twice as many floats; for equal
  endpoints it returns the single sample that is the normalized position of that pixel.
\<close>

theorem bresenhamLine_sample_count:
  assumes "int32 x0" "int32 y0" "int32 x1" "int32 y1"
    and "\<bar>x1 - x0\<bar> \<le> 715827882" "\<bar>y1 - y0\<bar> \<le> 715827882"
    and "0 < width" "0 < height"
  shows "(\<exists>ps. bresenhamLine x0 y0 x1 y1 width height = Some (pixel_samples width height ps)
           \<and> length ps = nat (max \<bar>x1 - x0\<bar> \<bar>y1 - y0\<bar>) + 1
           \<and> length (pixel_samples width height ps) = 2 * (nat (max \<bar>x1 - x0\<bar> \<bar>y1 - y0\<bar>) + 1))
       \<and> bresenhamLine x0 y0 x0 y0 width height
            = Some [normalize (real_of_int x0) width, normalize (real_of_int y0) height]"
proof
  from bresenhamLine_path[OF assms(1-6), of width height]
  show "\<exists>ps. bresenhamLine x0 y0 x1 y1 width height = Some (pixel_samples width height ps)
         \<and> length ps = nat (max \<bar>x1 - x0\<bar> \<bar>y1 - y0\<bar>) + 1
         \<and> length (pixel_samples width height ps) = 2 * (nat (max \<bar>x1 - x0\<bar> \<bar>y1 - y0\<bar>) + 1)"
    by (auto simp: length_pixel_samples)
  from bresenhamLine_path[OF assms(1,2,1,2), of width height]
  obtain ps where ps: "bresenhamLine x0 y0 x0 y0 width height = Some (pixel_samples width height ps)"
    "length ps = 1" "hd ps = (x0, y0)"
    by auto
  then have "ps = [(x0, y0)]" by (cases ps) auto
  with ps(1) show "bresenhamLine x0 y0 x0 y0 width height
        = Some [normalize (real_of_int x0) width, normalize (real_of_int y0) height]"
    by (simp add: pixel_samples_single)
qed

theorem bresenhamLine_sample_count_witness:
  "int32 0 \<and> int32 3 \<and> int32 1
   \<and> \<bar>3 - 0 :: int\<bar> \<le> 715827882 \<and> \<bar>1 - 0 :: int\<bar> \<le> 715827882
   \<and> (0::int) < 100
   \<and> (\<exists>ps. bresenhamLine 0 0 3 1 100 100 = Some (pixel_samples 100 100 ps)
           \<and> length ps = 4 \<and> length (pixel_samples 100 100 ps) = 8)
   \<and> bresenhamLine 0 0 0 0 100 100 = Some [normalize 0 100, normalize 0 100]"
proof -
  have h: "int32 0" "int32 3" "int32 1" "\<bar>3 - 0 :: int\<bar> \<le> 715827882"
    "\<bar>1 - 0 :: int\<bar> \<le> 715827882" "(0::int) < 100"
    by (simp_all add: int32_def)
  from bresenhamLine_sample_count[OF h(1) h(1) h(2) h(3) h(4) h(5) h(6) h(6)] h
  show ?thesis by simp
qed

text \<open>
  C6 (as stated, refuted). For the endpoints \<open>(0, 2)\<close> and \<open>(2^30, 2)\<close>, which are values of
  \<^verbatim>\<open>int\<close>, the stepping loop does not terminate: after the doubled error term has wrapped
  around, the exit test never succeeds.
\<close>

theorem bresenhamLine_terminates_counterexample:
  "bresenhamLine 0 2 1073741824 2 100 100 = None"
  by (rule bresenhamLine_overflow) (simp add: int32_def)

text \<open>
  C6 (amended). For endpoints of type \<^verbatim>\<open>int\<close> whose coordinates differ by at most
  \<open>715827882\<close> in \<open>x\<close> and in \<open>y\<close> (and positive width and height) the stepping loop of
  \<open>bresenhamLine\<close> terminates, and it does so in the iteration that emits the end pixel:
  the result is the vector of a non-empty pixel sequence whose last pixel is \<open>(x1, y1)\<close> and
  in which \<open>(x1, y1)\<close> does not occur earlier; and an iteration entered at the end pixel
  emits it and exits at once, whatever the error term is (there is no length computed in
  advance).
\<close>

theorem bresenhamLine_terminates_at_end:
  assumes "int32 x0" "int32 y0" "int32 x1" "int32 y1"
    and "\<bar>x1 - x0\<bar> \<le> 715827882" "\<bar>y1 - y0\<bar> \<le> 715827882"
    and "0 < width" "0 < height"
  shows "(\<exists>ps. bresenhamLine x0 y0 x1 y1 width height = Some (pixel_samples width height ps)
           \<and> ps \<noteq> [] \<and> last ps = (x1, y1) \<and> (x1, y1) \<notin> set (butlast ps))
       \<and> bresenham_loop x1 y1 width height dx dy sx sy x1 y1 err vertices
            = Some (vertices @ pixel_samples width height [(x1, y1)])"
proof
  from bresenhamLine_path[OF assms(1-6), of width height]
  obtain ps where ps: "bresenhamLine x0 y0 x1 y1 width height = Some (pixel_samples width height ps)"
    "length ps = nat (max \<bar>x1 - x0\<bar> \<bar>y1 - y0\<bar>) + 1" "last ps = (x1, y1)"
    "(x1, y1) \<notin> set (butlast ps)"
    by blast
  from ps(2) have "ps \<noteq> []" by auto
  with ps show "\<exists>ps. bresenhamLine x0 y0 x1 y1 width height = Some (pixel_samples width height ps)
         \<and> ps \<noteq> [] \<and> last ps = (x1, y1) \<and> (x1, y1) \<notin> set (butlast ps)"
    by blast
  show "bresenham_loop x1 y1 width height dx dy sx sy x1 y1 err vertices
        = Some (vertices @ pixel_samples width height [(x1, y1)])"
    by (subst bresenham_loop.simps) (simp add: Let_def normalize_def pixel_samples_def)
qed

theorem bresenhamLine_terminates_at_end_witness:
  "int32 0 \<and> int32 3 \<and> int32 1
   \<and> \<bar>3 - 0 :: int\<bar> \<le> 715827882 \<and> \<bar>1 - 0 :: int\<bar> \<le> 715827882
   \<and> (0::int) < 10
   \<and> (\<exists>ps. bresenhamLine 0 0 3 1 10 10 = Some (pixel_samples 10 10 ps)
           \<and> ps \<noteq> [] \<and> last ps = (3, 1) \<and> (3, 1) \<notin> set (butlast ps))
   \<and> bresenham_loop 3 1 10 10 3 (- 1) 1 1 3 1 2 [] = Some ([] @ pixel_samples 10 10 [(3, 1)])"
proof -
  have h: "int32 0" "int32 3" "int32 1" "\<bar>3 - 0 :: int\<bar> \<le> 715827882"
    "\<bar>1 - 0 :: int\<bar> \<le> 715827882" "(0::int) < 10"
    by (simp_all add: int32_def)
  from bresenhamLine_terminates_at_end[OF h(1) h(1) h(2) h(3) h(4) h(5) h(6) h(6),
      of 3 "- 1" 1 1 2 "[]"] h
  show ?thesis by simp
qed

text \<open>
  C1 (as stated, refuted). For the segment from \<open>(1/2, 0)\<close> to \<open>(3, 0)\<close> the first two
  vertices are the coverage-split pair of the first endpoint column; their coverages sum
  to \<open>1/2\<close>, which differs from 1 by far more than a rounding error.
\<close>

theorem coverage_sum_counterexample:
  "v_alpha (xiaolinWuLine (1/2) 0 3 0 100 100 1 0 1 ! 0)
     + v_alpha (xiaolinWuLine (1/2) 0 3 0 100 100 1 0 1 ! 1) = 1/2
   \<and> 1/100000 < \<bar>v_alpha (xiaolinWuLine (1/2) 0 3 0 100 100 1 0 1 ! 0)
                   + v_alpha (xiaolinWuLine (1/2) 0 3 0 100 100 1 0 1 ! 1) - 1\<bar>"
proof -
  have o: "wu_orient (1/2) 0 3 0 = (False, 1/2, 0, 3, 0)"
    by (simp add: wu_orient_def)
  show ?thesis
    unfolding xiaolinWuLine_shape[OF o]
    by (simp add: nth_append coverage_pair_def fpart_def rfpart_def wu_gradient_def)
qed

text \<open>
  C1 (amended). The result of \<open>xiaolinWuLine\<close> consists of at least two pairs of vertices.
  The coverages of the pair of the first endpoint sum to that endpoint's gap
  \<open>1 - fpart X0\<close>, where \<open>X0\<close> is the primary-axis coordinate of the first working endpoint;
  the coverages of the pair of the second endpoint sum to 1 when its primary-axis
  coordinate \<open>X1\<close> is an integer; the coverages of every later pair (the interior columns)
  sum to exactly 1.
\<close>

theorem coverage_sum_amended:
  assumes "wu_orient x0 y0 x1 y1 = (steep, X0, Y0, X1, Y1)"
  shows "(let vs = xiaolinWuLine x0 y0 x1 y1 width height r g b in
            4 \<le> length vs \<and> even (length vs)
          \<and> v_alpha (vs ! 0) + v_alpha (vs ! 1) = 1 - fpart X0
          \<and> (X1 = real_of_int \<lfloor>X1\<rfloor> \<longrightarrow> v_alpha (vs ! 2) + v_alpha (vs ! 3) = 1)
          \<and> (\<forall>k. 2 \<le> k \<and> 2 * k + 1 < length vs
                 \<longrightarrow> v_alpha (vs ! (2 * k)) + v_alpha (vs ! (2 * k + 1)) = 1))"
proof -
  define g' where "g' = wu_gradient X0 Y0 X1 Y1"
  define e1 where "e1 = coverage_pair steep width height r g b \<lfloor>X0\<rfloor>
        (Y0 + g' * (real_of_int \<lfloor>X0\<rfloor> - X0)) (1 - (X0 - real_of_int \<lfloor>X0\<rfloor>))"
  define e2 where "e2 = coverage_pair steep width height r g b \<lceil>X1\<rceil>
        (Y1 + g' * (real_of_int \<lceil>X1\<rceil> - X1)) (1 - (X1 - real_of_int \<lceil>X1\<rceil>))"
  define n where "n = nat (\<lceil>X1\<rceil> - (\<lfloor>X0\<rfloor> + 1))"
  define ip where "ip = interior_pairs steep width height r g b (\<lfloor>X0\<rfloor> + 1)
        (Y0 + g' * (real_of_int \<lfloor>X0\<rfloor> - X0) + g') g' n"
  have vs: "xiaolinWuLine x0 y0 x1 y1 width height r g b = e1 @ e2 @ ip"
    unfolding xiaolinWuLine_shape[OF assms] e1_def e2_def ip_def n_def g'_def ..
  have len: "length e1 = 2" "length e2 = 2" "length ip = 2 * n"
    by (simp_all add: e1_def e2_def ip_def)
  have s1: "v_alpha (e1 ! 0) + v_alpha (e1 ! 1) = 1 - fpart X0"
    unfolding e1_def coverage_pair_alpha_sum by (simp add: fpart_def)
  have s2: "v_alpha (e2 ! 0) + v_alpha (e2 ! 1) = 1" if "X1 = real_of_int \<lfloor>X1\<rfloor>"
  proof -
    from that have "real_of_int \<lceil>X1\<rceil> = X1"
      by (metis ceiling_of_int)
    then show ?thesis unfolding e2_def coverage_pair_alpha_sum by simp
  qed
  have s3: "v_alpha ((e1 @ e2 @ ip) ! (2 * k)) + v_alpha ((e1 @ e2 @ ip) ! (2 * k + 1)) = 1"
    if "2 \<le> k" "2 * k + 1 < length (e1 @ e2 @ ip)" for k
  proof -
    from that(1) obtain j where k: "k = j + 2"
      by (metis le_add_diff_inverse2)
    from that(2) len have j: "j < n" by (simp add: k)
    have "2 * k = length (e1 @ e2) + 2 * j" "2 * k + 1 = length (e1 @ e2) + (2 * j + 1)"
      using len by (simp_all add: k)
    then have "(e1 @ e2 @ ip) ! (2 * k) = ip ! (2 * j)"
      "(e1 @ e2 @ ip) ! (2 * k + 1) = ip ! (2 * j + 1)"
      by (metis append_assoc nth_append_length_plus)+
    then show ?thesis
      unfolding ip_def using interior_pairs_alpha_sum[OF j] by simp
  qed
  show ?thesis
    unfolding vs Let_def using len s1 s2 s3
    by (simp add: nth_append)
qed

theorem coverage_sum_amended_witness:
  "wu_orient (1/2) 0 3 0 = (False, 1/2, 0, 3, 0)
   \<and> 4 \<le> length (xiaolinWuLine (1/2) 0 3 0 100 100 1 0 1)
   \<and> even (length (xiaolinWuLine (1/2) 0 3 0 100 100 1 0 1))
   \<and> v_alpha (xiaolinWuLine (1/2) 0 3 0 100 100 1 0 1 ! 0)
       + v_alpha (xiaolinWuLine (1/2) 0 3 0 100 100 1 0 1 ! 1) = 1 - fpart (1/2)
   \<and> (3::real) = real_of_int \<lfloor>3::real\<rfloor>
   \<and> v_alpha (xiaolinWuLine (1/2) 0 3 0 100 100 1 0 1 ! 2)
       + v_alpha (xiaolinWuLine (1/2) 0 3 0 100 100 1 0 1 ! 3) = 1
   \<and> (2::nat) \<le> 2 \<and> 2 * 2 + 1 < length (xiaolinWuLine (1/2) 0 3 0 100 100 1 0 1)
   \<and> v_alpha (xiaolinWuLine (1/2) 0 3 0 100 100 1 0 1 ! (2 * 2))
       + v_alpha (xiaolinWuLine (1/2) 0 3 0 100 100 1 0 1 ! (2 * 2 + 1)) = 1"
proof -
  have o: "wu_orient (1/2) 0 3 0 = (False, 1/2, 0, 3, 0)"
    by (simp add: wu_orient_def)
  have l: "length (xiaolinWuLine (1/2) 0 3 0 100 100 1 0 1) = 8"
    unfolding xiaolinWuLine_shape[OF o] by simp
  have i: "(3::real) = real_of_int \<lfloor>3::real\<rfloor>" by simp
  have k: "(2::nat) \<le> 2 \<and> 2 * 2 + 1 < length (xiaolinWuLine (1/2) 0 3 0 100 100 1 0 1)"
    by (simp add: l)
  note t = coverage_sum_amended[OF o, of 100 100 1 0 1, unfolded Let_def]
  from t have "4 \<le> length (xiaolinWuLine (1/2) 0 3 0 100 100 1 0 1)"
    "even (length (xiaolinWuLine (1/2) 0 3 0 100 100 1 0 1))"
    "v_alpha (xiaolinWuLine (1/2) 0 3 0 100 100 1 0 1 ! 0)
       + v_alpha (xiaolinWuLine (1/2) 0 3 0 100 100 1 0 1 ! 1) = 1 - fpart (1/2)"
    by blast+
  moreover from t i have "v_alpha (xiaolinWuLine (1/2) 0 3 0 100 100 1 0 1 ! 2)
       + v_alpha (xiaolinWuLine (1/2) 0 3 0 100 100 1 0 1 ! 3) = 1"
    by blast
  moreover from t k have "v_alpha (xiaolinWuLine (1/2) 0 3 0 100 100 1 0 1 ! (2 * 2))
       + v_alpha (xiaolinWuLine (1/2) 0 3 0 100 100 1 0 1 ! (2 * 2 + 1)) = 1"
    by blast
  ultimately show ?thesis using o i k by blast
qed

text \<open>
  C2 (the code departs from the claim). For the segment from \<open>(0, 0)\<close> to \<open>(5/2, 0)\<close> the
  lower vertex of the second endpoint's pair carries the coverage \<open>3/2\<close>, which lies outside
  the interval from 0 to 1: line 139 computes the gap as \<open>1 - (X1 - \<lceil>X1\<rceil>)\<close>, which is
  at least 1 and exceeds 1 whenever \<open>X1\<close> is not an integer.
\<close>

theorem coverage_exceeds_one:
  "v_alpha (xiaolinWuLine 0 0 (5/2) 0 100 100 1 0 1 ! 2) = 3/2
   \<and> \<not> (0 \<le> v_alpha (xiaolinWuLine 0 0 (5/2) 0 100 100 1 0 1 ! 2)
        \<and> v_alpha (xiaolinWuLine 0 0 (5/2) 0 100 100 1 0 1 ! 2) \<le> 1)"
proof -
  have o: "wu_orient 0 0 (5/2) 0 = (False, 0, 0, 5/2, 0)"
    by (simp add: wu_orient_def)
  have "v_alpha (xiaolinWuLine 0 0 (5/2) 0 100 100 1 0 1 ! 2) = 3/2"
    unfolding xiaolinWuLine_shape[OF o]
    by (simp add: nth_append coverage_pair_def fpart_def rfpart_def wu_gradient_def)
  then show ?thesis by simp
qed

text \<open>
  C3 (the code departs from the claim). For the segment from \<open>(0, 0)\<close> to \<open>(5/2, 5/4)\<close> the
  second endpoint has the primary coordinate \<open>5/2\<close>; its pair is the one at column 3 with the
  intersection \<open>3/2\<close> and the gap \<open>3/2\<close>, so both vertices carry the coverage \<open>3/4\<close>. The gap
  of the claim is \<open>1 - fpart (5/2) = 1/2\<close>, with which both coverages would be \<open>1/4\<close>. (For the
  first endpoint the code does use \<open>1 - fpart X0\<close>, see \<open>xiaolinWuLine_endpoint_pairs\<close>.)
\<close>

theorem second_endpoint_gap:
  "take 2 (drop 2 (xiaolinWuLine 0 0 (5/2) (5/4) 100 100 1 0 1))
     = coverage_pair False 100 100 1 0 1 3 (3/2) (3/2)
   \<and> map v_alpha (coverage_pair False 100 100 1 0 1 3 (3/2) (3/2)) = [3/4, 3/4]
   \<and> 1 - fpart (5/2) = 1/2
   \<and> map v_alpha (coverage_pair False 100 100 1 0 1 3 (3/2) (1 - fpart (5/2))) = [1/4, 1/4]"
proof -
  have o: "wu_orient 0 0 (5/2) (5/4) = (False, 0, 0, 5/2, 5/4)"
    by (simp add: wu_orient_def)
  have c: "\<lceil>5/2 :: real\<rceil> = 3" by simp
  have "take 2 (drop 2 (xiaolinWuLine 0 0 (5/2) (5/4) 100 100 1 0 1))
     = coverage_pair False 100 100 1 0 1 3 (3/2) (3/2)"
    unfolding xiaolinWuLine_endpoint_pairs(2)[OF o] c
    by (simp add: wu_gradient_def)
  moreover have "map v_alpha (coverage_pair False 100 100 1 0 1 3 (3/2) (3/2)) = [3/4, 3/4]"
    "1 - fpart (5/2) = 1/2"
    "map v_alpha (coverage_pair False 100 100 1 0 1 3 (3/2) (1 - fpart (5/2))) = [1/4, 1/4]"
    by (simp_all add: coverage_pair_def fpart_def rfpart_def)
  ultimately show ?thesis by simp
qed

text \<open>
  C8. For all real endpoints \<open>A = (x0, y0)\<close> and \<open>B = (x1, y1)\<close>, positive width and height and
  every colour, \<open>xiaolinWuLine\<close> yields for \<open>(B, A)\<close> the same set of (position, coverage)
  triples as for \<open>(A, B)\<close>. The code yields even the same vector in the same order, because
  the two swaps of step 1 bring both calls to the same working endpoints.
\<close>

theorem xiaolinWuLine_symmetric:
  assumes "0 < width" "0 < height"
  shows "set (map (\<lambda>v. (v_x v, v_y v, v_alpha v)) (xiaolinWuLine x1 y1 x0 y0 width height r g b))
           = set (map (\<lambda>v. (v_x v, v_y v, v_alpha v)) (xiaolinWuLine x0 y0 x1 y1 width height r g b))
         \<and> xiaolinWuLine x1 y1 x0 y0 width height r g b
           = xiaolinWuLine x0 y0 x1 y1 width height r g b"
proof -
  have "xiaolinWuLine x1 y1 x0 y0 width height r g b
           = xiaolinWuLine x0 y0 x1 y1 width height r g b"
    unfolding xiaolinWuLine_def wu_orient_sym[of x0 y0 x1 y1] ..
  then show ?thesis by simp
qed

theorem xiaolinWuLine_symmetric_witness:
  "(0::int) < 100 \<and> (0::int) < 100
   \<and> set (map (\<lambda>v. (v_x v, v_y v, v_alpha v)) (xiaolinWuLine 3 (5/4) (1/2) 0 100 100 1 0 1))
       = set (map (\<lambda>v. (v_x v, v_y v, v_alpha v)) (xiaolinWuLine (1/2) 0 3 (5/4) 100 100 1 0 1))
   \<and> xiaolinWuLine 3 (5/4) (1/2) 0 100 100 1 0 1 = xiaolinWuLine (1/2) 0 3 (5/4) 100 100 1 0 1"
  using xiaolinWuLine_symmetric[of 100 100 3 "5/4" "1/2" 0 1 0 1] by simp



text \<open>
  C7 (as stated, refuted). With width and height \<open>-2\<close> the integer rasterizer signals no
  error and returns two samples, and the antialiased rasterizer returns eight vertices;
  with the negative angular step \<open>- 2^30\<close> the radial pattern generator signals no error and
  returns three segments (the third addition to the angle wraps around to \<open>2^30\<close>, which
  ends the loop).
\<close>

theorem fail_fast_counterexample:
  "bresenhamLine 0 0 1 0 (- 2) (- 2) = Some [- 3/2, - 3/2, - 5/2, - 3/2]
   \<and> length (xiaolinWuLine 0 0 3 0 (- 2) (- 2) 1 0 1) = 8
   \<and> generateLines 0 0 10 (- 1073741824)
       = Some [radial_line 0 0 10 0, radial_line 0 0 10 (- 1073741824),
               radial_line 0 0 10 (- 2147483648)]"
proof -
  have k: "abs32 (sub32 1 0) = 1" "neg32 (abs32 (sub32 0 0)) = 0" "add32 1 0 = 1"
    "mul32 2 1 = 2" "add32 0 1 = 1"
    by (simp_all add: abs32_def sub32_def neg32_def add32_def mul32_def int32_def wrap32_def)
  have "bresenhamLine 0 0 1 0 (- 2) (- 2) = Some [- 3/2, - 3/2, - 5/2, - 3/2]"
    unfolding bresenhamLine_def
    apply (simp add: Let_def k)
    apply (subst bresenham_loop.simps)
    apply (simp add: Let_def k)
    apply (subst bresenham_loop.simps)
    apply (simp add: Let_def)
    done
  moreover have o: "wu_orient 0 0 3 0 = (False, 0, 0, 3, 0)"
    by (simp add: wu_orient_def)
  have "length (xiaolinWuLine 0 0 3 0 (- 2) (- 2) 1 0 1) = 8"
    unfolding xiaolinWuLine_shape[OF o] by simp
  moreover have "generateLines 0 0 10 (- 1073741824)
       = Some [radial_line 0 0 10 0, radial_line 0 0 10 (- 1073741824),
               radial_line 0 0 10 (- 2147483648)]"
  proof -
    have u: "[0..<3] = [0, 1, 2::nat]" by (simp add: upt_rec)
    have n: "nat (2147483648 div (- (- 1073741824))) + 1 = 3" by simp
    show ?thesis
      using generateLines_negative_step[of "- 1073741824" 0 0 10]
      unfolding n u by simp
  qed
  ultimately show ?thesis by simp
qed

text \<open>
  C7 (amended). No operation checks its arguments. When the width or the height is not
  positive, \<open>bresenhamLine\<close> (for endpoints of type \<^verbatim>\<open>int\<close> whose coordinates differ by at
  most \<open>715827882\<close>) still returns its \<open>max \<bar>x1 - x0\<bar> \<bar>y1 - y0\<bar> + 1\<close> samples and
  \<open>xiaolinWuLine\<close> still returns its vertices, at least four, without signalling an error.
  For a negative angular step of at least \<open>360 - 2^31\<close> the loop of \<open>generateLines\<close> runs
  until the angle wraps around and returns \<open>2^31 div \<bar>angleStep\<bar> + 1\<close> segments without
  signalling an error; for the angular step 0 the call returns no result, because the
  loop is never left by its exit test.
\<close>

theorem no_precondition_checks:
  "(width \<le> 0 \<or> height \<le> 0 \<longrightarrow>
      (int32 x0 \<and> int32 y0 \<and> int32 x1 \<and> int32 y1
         \<and> \<bar>x1 - x0\<bar> \<le> 715827882 \<and> \<bar>y1 - y0\<bar> \<le> 715827882 \<longrightarrow>
         (\<exists>vertices. bresenhamLine x0 y0 x1 y1 width height = Some vertices
            \<and> length vertices = 2 * (nat (max \<bar>x1 - x0\<bar> \<bar>y1 - y0\<bar>) + 1)))
      \<and> 4 \<le> length (xiaolinWuLine a0 b0 a1 b1 width height r g b))
   \<and> (360 - 2147483648 \<le> angleStep \<and> angleStep < 0 \<longrightarrow>
        generateLines cx cy radius angleStep
          = Some (map (\<lambda>k. radial_line cx cy radius (int k * angleStep))
                      [0..<nat (2147483648 div (- angleStep)) + 1]))
   \<and> generateLines cx cy radius 0 = None"
proof -
  have "\<exists>vertices. bresenhamLine x0 y0 x1 y1 width height = Some vertices
          \<and> length vertices = 2 * (nat (max \<bar>x1 - x0\<bar> \<bar>y1 - y0\<bar>) + 1)"
    if "int32 x0" "int32 y0" "int32 x1" "int32 y1"
      "\<bar>x1 - x0\<bar> \<le> 715827882" "\<bar>y1 - y0\<bar> \<le> 715827882"
    using bresenhamLine_path[OF that, of width height]
    by (auto simp: length_pixel_samples)
  moreover have "4 \<le> length (xiaolinWuLine a0 b0 a1 b1 width height r g b)"
  proof -
    obtain steep X0 Y0 X1 Y1 where o: "wu_orient a0 b0 a1 b1 = (steep, X0, Y0, X1, Y1)"
      by (metis prod_cases5)
    show ?thesis unfolding xiaolinWuLine_shape[OF o] by simp
  qed
  moreover have "generateLines cx cy radius angleStep
          = Some (map (\<lambda>k. radial_line cx cy radius (int k * angleStep))
                      [0..<nat (2147483648 div (- angleStep)) + 1])"
    if "360 - 2147483648 \<le> angleStep" "angleStep < 0"
    using that by (intro generateLines_negative_step) simp_all
  moreover have "generateLines cx cy radius 0 = None"
    by (rule generateLines_zero_step)
  ultimately show ?thesis by blast
qed

theorem no_precondition_checks_witness:
  "((- 2 :: int) \<le> 0 \<or> (- 2 :: int) \<le> 0)
   \<and> int32 0 \<and> int32 1 \<and> \<bar>1 - 0 :: int\<bar> \<le> 715827882 \<and> \<bar>0 - 0 :: int\<bar> \<le> 715827882
   \<and> (\<exists>vertices. bresenhamLine 0 0 1 0 (- 2) (- 2) = Some vertices
          \<and> length vertices = 2 * (nat (max \<bar>1 - 0\<bar> \<bar>0 - 0\<bar>) + 1))
   \<and> 4 \<le> length (xiaolinWuLine 0 0 3 0 (- 2) (- 2) 1 0 1)
   \<and> (360 - 2147483648 \<le> (- 90 :: int) \<and> (- 90 :: int) < 0)
   \<and> (\<exists>lines. generateLines 0 0 10 (- 90) = Some lines \<and> length lines = 23860930)
   \<and> generateLines 0 0 10 0 = None"
proof -
  have h: "(- 2 :: int) \<le> 0 \<or> (- 2 :: int) \<le> 0" "int32 0" "int32 1"
    "\<bar>1 - 0 :: int\<bar> \<le> 715827882" "\<bar>0 - 0 :: int\<bar> \<le> 715827882"
    "360 - 2147483648 \<le> (- 90 :: int) \<and> (- 90 :: int) < 0"
    by (simp_all add: int32_def)
  note t = no_precondition_checks[of "- 2" "- 2" 0 0 1 0 0 0 3 0 1 0 1 "- 90" 0 0 10]
  from t h have b: "\<exists>vertices. bresenhamLine 0 0 1 0 (- 2) (- 2) = Some vertices
          \<and> length vertices = 2 * (nat (max \<bar>1 - 0\<bar> \<bar>0 - 0\<bar>) + 1)"
    by blast
  from t h have w: "4 \<le> length (xiaolinWuLine 0 0 3 0 (- 2) (- 2) 1 0 1)"
    by blast
  from t h have "generateLines 0 0 10 (- 90)
          = Some (map (\<lambda>k. radial_line 0 0 10 (int k * - 90))
                      [0..<nat (2147483648 div (- (- 90))) + 1])"
    by blast
  moreover have "nat (2147483648 div (- (- 90))) + 1 = (23860930::nat)" by simp
  ultimately have "generateLines 0 0 10 (- 90)
          = Some (map (\<lambda>k. radial_line 0 0 10 (int k * - 90)) [0..<23860930])"
    by (simp only:)
  moreover have "length (map (\<lambda>k. radial_line 0 0 10 (int k * - 90)) [0..<23860930]) = 23860930"
    by (simp only: length_map length_upt diff_zero)
  ultimately have g: "\<exists>lines. generateLines 0 0 10 (- 90) = Some lines \<and> length lines = 23860930"
    by blast
  from t have z: "generateLines 0 0 10 0 = None" by blast
  from h b w g z show ?thesis by blast
qed

text \<open>
  C10. For a positive radius and a positive angular step \<open>generateLines\<close> returns one
  segment for each of the angles \<open>0, angleStep, 2 * angleStep, \<dots>\<close> below 360, in this order.
  Each segment starts at the centre and ends within \<open>6 / 1000000\<close> times the radius (per
  coordinate) of the point at that angle and radius; the deviation comes from the constant
  \<open>3.14159\<close> that the source uses for \<open>\<pi>\<close>. For the centre \<open>(0, 0)\<close>, the radius 10 and
  the step 90 the result has exactly four segments, which end within \<open>1 / 10000\<close> of
  \<open>(10, 0)\<close>, \<open>(0, 10)\<close>, \<open>(-10, 0)\<close> and \<open>(0, -10)\<close>.
\<close>

theorem generateLines_radial:
  assumes "0 < radius" "0 < angleStep"
  shows "(let n = nat ((359 + angleStep) div angleStep) in
            generateLines x0 y0 radius angleStep
              = Some (map (\<lambda>k. radial_line x0 y0 radius (int k * angleStep)) [0..<n])
          \<and> (\<forall>k. k < n \<longleftrightarrow> int k * angleStep < 360)
          \<and> (\<forall>k<n. let s = radial_line x0 y0 radius (int k * angleStep);
                         t = real_of_int (int k * angleStep) * pi / 180
                     in l_x0 s = real_of_int x0 \<and> l_y0 s = real_of_int y0
                      \<and> \<bar>l_x1 s - (real_of_int x0 + real_of_int radius * cos t)\<bar>
                          \<le> real_of_int radius * (6 / 1000000)
                      \<and> \<bar>l_y1 s - (real_of_int y0 + real_of_int radius * sin t)\<bar>
                          \<le> real_of_int radius * (6 / 1000000)))
       \<and> (\<exists>s0 s1 s2 s3. generateLines 0 0 10 90 = Some [s0, s1, s2, s3]
            \<and> \<bar>l_x1 s0 - 10\<bar> \<le> 1 / 10000 \<and> \<bar>l_y1 s0 - 0\<bar> \<le> 1 / 10000
            \<and> \<bar>l_x1 s1 - 0\<bar> \<le> 1 / 10000 \<and> \<bar>l_y1 s1 - 10\<bar> \<le> 1 / 10000
            \<and> \<bar>l_x1 s2 - (- 10)\<bar> \<le> 1 / 10000 \<and> \<bar>l_y1 s2 - 0\<bar> \<le> 1 / 10000
            \<and> \<bar>l_x1 s3 - 0\<bar> \<le> 1 / 10000 \<and> \<bar>l_y1 s3 - (- 10)\<bar> \<le> 1 / 10000)"
proof -
  define q where "q = (359 + angleStep) div angleStep"
  define n where "n = nat q"
  note c = radial_count[OF assms(2) q_def]
  from c(1) have n: "int n = q" by (simp add: n_def)
  have iff: "k < n \<longleftrightarrow> int k * angleStep < 360" for k
  proof
    assume "k < n"
    then have "int k \<le> q - 1" using n by linarith
    then have "int k * angleStep \<le> (q - 1) * angleStep"
      using assms(2) by (intro mult_right_mono) simp_all
    with c(3) show "int k * angleStep < 360" by linarith
  next
    assume "int k * angleStep < 360"
    with c(2) have "int k * angleStep < q * angleStep" by linarith
    then have "int k < q" using assms(2) by (simp add: mult_less_cancel_right)
    then show "k < n" using n by linarith
  qed
  have close: "l_x0 (radial_line x0 y0 radius (int k * angleStep)) = real_of_int x0
      \<and> l_y0 (radial_line x0 y0 radius (int k * angleStep)) = real_of_int y0
      \<and> \<bar>l_x1 (radial_line x0 y0 radius (int k * angleStep))
           - (real_of_int x0 + real_of_int radius * cos (real_of_int (int k * angleStep) * pi / 180))\<bar>
          \<le> real_of_int radius * (6 / 1000000)
      \<and> \<bar>l_y1 (radial_line x0 y0 radius (int k * angleStep))
           - (real_of_int y0 + real_of_int radius * sin (real_of_int (int k * angleStep) * pi / 180))\<bar>
          \<le> real_of_int radius * (6 / 1000000)" if "k < n" for k
  proof -
    have "0 \<le> int k * angleStep" using assms(2) by simp
    moreover from that iff have "int k * angleStep < 360" by simp
    moreover have "0 \<le> radius" using assms(1) by simp
    ultimately show ?thesis using radial_line_close[of radius "int k * angleStep" x0 y0] by blast
  qed
  have general: "generateLines x0 y0 radius angleStep
              = Some (map (\<lambda>k. radial_line x0 y0 radius (int k * angleStep)) [0..<n])"
    unfolding n_def q_def by (rule generateLines_positive_step[OF assms(2)])
  have four: "generateLines 0 0 10 90
      = Some [radial_line 0 0 10 0, radial_line 0 0 10 90, radial_line 0 0 10 180, radial_line 0 0 10 270]"
  proof -
    have "[0..<4] = [0, 1, 2, 3::nat]" by (simp add: upt_rec)
    then show ?thesis
      using generateLines_positive_step[of 90 0 0 10] by simp
  qed
  have e0: "\<bar>l_x1 (radial_line 0 0 10 0) - 10\<bar> \<le> 1 / 10000"
       "\<bar>l_y1 (radial_line 0 0 10 0) - 0\<bar> \<le> 1 / 10000"
    by (simp_all add: radial_line_def)
  have e1: "\<bar>l_x1 (radial_line 0 0 10 90) - 0\<bar> \<le> 1 / 10000"
       "\<bar>l_y1 (radial_line 0 0 10 90) - 10\<bar> \<le> 1 / 10000"
    using radial_line_close(3,4)[of 10 90 0 0] by simp_all
  have e2: "\<bar>l_x1 (radial_line 0 0 10 180) - (- 10)\<bar> \<le> 1 / 10000"
       "\<bar>l_y1 (radial_line 0 0 10 180) - 0\<bar> \<le> 1 / 10000"
    using radial_line_close(3,4)[of 10 180 0 0] by simp_all
  have a: "real_of_int 270 * pi / 180 = 3 / 2 * pi" by simp
  have t: "cos (real_of_int 270 * pi / 180) = 0" "sin (real_of_int 270 * pi / 180) = - 1"
    unfolding a by (rule cos_3over2_pi, rule sin_3over2_pi)
  have e3: "\<bar>l_x1 (radial_line 0 0 10 270) - 0\<bar> \<le> 1 / 10000"
       "\<bar>l_y1 (radial_line 0 0 10 270) - (- 10)\<bar> \<le> 1 / 10000"
    using radial_line_close(3,4)[of 10 270 0 0, unfolded t] by simp_all
  from four e0 e1 e2 e3 have example:
    "\<exists>s0 s1 s2 s3. generateLines 0 0 10 90 = Some [s0, s1, s2, s3]
            \<and> \<bar>l_x1 s0 - 10\<bar> \<le> 1 / 10000 \<and> \<bar>l_y1 s0 - 0\<bar> \<le> 1 / 10000
            \<and> \<bar>l_x1 s1 - 0\<bar> \<le> 1 / 10000 \<and> \<bar>l_y1 s1 - 10\<bar> \<le> 1 / 10000
            \<and> \<bar>l_x1 s2 - (- 10)\<bar> \<le> 1 / 10000 \<and> \<bar>l_y1 s2 - 0\<bar> \<le> 1 / 10000
            \<and> \<bar>l_x1 s3 - 0\<bar> \<le> 1 / 10000 \<and> \<bar>l_y1 s3 - (- 10)\<bar> \<le> 1 / 10000"
    by blast
  show ?thesis
    unfolding Let_def q_def[symmetric] n_def[symmetric]
    using general iff close example by blast
qed


theorem generateLines_radial_witness:
  "(0::int) < 10 \<and> (0::int) < 90
   \<and> generateLines 0 0 10 90 = Some (map (\<lambda>k. radial_line 0 0 10 (int k * 90)) [0..<4])
   \<and> ((1::nat) < 4 \<longleftrightarrow> int 1 * 90 < 360) \<and> (1::nat) < 4
   \<and> l_x0 (radial_line 0 0 10 (int 1 * 90)) = real_of_int 0
   \<and> \<bar>l_x1 (radial_line 0 0 10 (int 1 * 90))
         - (real_of_int 0 + real_of_int 10 * cos (real_of_int (int 1 * 90) * pi / 180))\<bar>
        \<le> real_of_int 10 * (6 / 1000000)
   \<and> (\<exists>s0 s1 s2 s3. generateLines 0 0 10 90 = Some [s0, s1, s2, s3]
            \<and> \<bar>l_x1 s0 - 10\<bar> \<le> 1 / 10000 \<and> \<bar>l_y1 s0 - 0\<bar> \<le> 1 / 10000
            \<and> \<bar>l_x1 s1 - 0\<bar> \<le> 1 / 10000 \<and> \<bar>l_y1 s1 - 10\<bar> \<le> 1 / 10000
            \<and> \<bar>l_x1 s2 - (- 10)\<bar> \<le> 1 / 10000 \<and> \<bar>l_y1 s2 - 0\<bar> \<le> 1 / 10000
            \<and> \<bar>l_x1 s3 - 0\<bar> \<le> 1 / 10000 \<and> \<bar>l_y1 s3 - (- 10)\<bar> \<le> 1 / 10000)"
proof -
  have n: "nat ((359 + 90) div 90) = 4" by simp
  note g = generateLines_radial[of 10 90 0 0, unfolded Let_def n]
  have h: "(0::int) < 10" "(0::int) < 90" by simp_all
  from g[OF h] have
    a: "generateLines 0 0 10 90 = Some (map (\<lambda>k. radial_line 0 0 10 (int k * 90)) [0..<4])"
    and b: "\<forall>k. k < 4 \<longleftrightarrow> int k * 90 < 360"
    and c: "\<forall>k<4. l_x0 (radial_line 0 0 10 (int k * 90)) = real_of_int 0
                \<and> l_y0 (radial_line 0 0 10 (int k * 90)) = real_of_int 0
                \<and> \<bar>l_x1 (radial_line 0 0 10 (int k * 90))
                     - (real_of_int 0 + real_of_int 10 * cos (real_of_int (int k * 90) * pi / 180))\<bar>
                    \<le> real_of_int 10 * (6 / 1000000)
                \<and> \<bar>l_y1 (radial_line 0 0 10 (int k * 90))
                     - (real_of_int 0 + real_of_int 10 * sin (real_of_int (int k * 90) * pi / 180))\<bar>
                    \<le> real_of_int 10 * (6 / 1000000)"
    and d: "\<exists>s0 s1 s2 s3. generateLines 0 0 10 90 = Some [s0, s1, s2, s3]
            \<and> \<bar>l_x1 s0 - 10\<bar> \<le> 1 / 10000 \<and> \<bar>l_y1 s0 - 0\<bar> \<le> 1 / 10000
            \<and> \<bar>l_x1 s1 - 0\<bar> \<le> 1 / 10000 \<and> \<bar>l_y1 s1 - 10\<bar> \<le> 1 / 10000
            \<and> \<bar>l_x1 s2 - (- 10)\<bar> \<le> 1 / 10000 \<and> \<bar>l_y1 s2 - 0\<bar> \<le> 1 / 10000
            \<and> \<bar>l_x1 s3 - 0\<bar> \<le> 1 / 10000 \<and> \<bar>l_y1 s3 - (- 10)\<bar> \<le> 1 / 10000"
    by blast+
  have k: "(1::nat) < 4" by simp
  note c1 = c[rule_format, OF k]
  from b have b1: "(1::nat) < 4 \<longleftrightarrow> int 1 * 90 < 360" by (rule spec)
  from h a b1 k c1 d show ?thesis by blast
qed

end
